theory Spec2Isabelle
  imports Main "HOL-Library.Multiset" "HOL-Library.Sublist"
begin

section \<open>Data model\<close>

text \<open>
  The plugin \<open>RemovePodsViolatingInterPodAffinity\<close> of the descheduler
  (\<open>pkg/framework/plugins/removepodsviolatinginterpodaffinity\<close>). Only the fields of
  \<open>v1.Pod\<close> and \<open>v1.Node\<close> that the plugin or its ordering reads are kept.
\<close>

datatype qos_class = BestEffort | Burstable | Guaranteed

record pod =
  PodName :: string
  Namespace :: string
  NodeName :: string
  Priority :: int
  QOSClass :: qos_class

record node =
  Name :: string
  Labels :: "(string \<times> string) list"

text \<open>\<open>context.Context\<close>: the plugin only ever hands it on, so its cancellation flag is enough.\<close>

record ctx =
  cancelled :: bool

text \<open>
  The \<open>error\<close> returned by \<open>Evict\<close>; \<open>None\<close> is Go's \<open>nil\<close>. The type switch of
  \<open>Deschedule\<close> knows \<open>*evictions.EvictionNodeLimitError\<close> and
  \<open>*evictions.EvictionTotalLimitError\<close>; every other error value, a per-namespace
  limit among them, is some other type.
\<close>

datatype eviction_error =
    EvictionNodeLimitError
  | EvictionTotalLimitError
  | EvictionNamespaceLimitError
  | OtherError string

record EvictOptions =
  StrategyName :: string

text \<open>
  The evictor behind \<open>handle.Evictor()\<close>. The two filters are predicates on the pod;
  \<open>Evict\<close> owns the budget counters, so it reads and returns the evictor's state \<open>'s\<close>.
\<close>

record 's evictor =
  Filter :: "pod \<Rightarrow> bool"
  PreEvictionFilter :: "pod \<Rightarrow> bool"
  Evict :: "ctx \<Rightarrow> pod \<Rightarrow> EvictOptions \<Rightarrow> 's \<Rightarrow> eviction_error option \<times> 's"

type_synonym GetPodsAssignedToNodeFunc = "string \<Rightarrow> (pod \<Rightarrow> bool) \<Rightarrow> string + pod list"

record 's Handle =
  GetPodsAssignedToNodeFunc :: GetPodsAssignedToNodeFunc
  Evictor :: "'s evictor"

datatype label_selector_operator =
  LabelSelectorOpIn | LabelSelectorOpNotIn | LabelSelectorOpExists | LabelSelectorOpDoesNotExist

record LabelSelectorRequirement =
  Key :: string
  Operator :: label_selector_operator
  Values :: "string list"

record LabelSelector =
  MatchLabels :: "(string \<times> string) list"
  MatchExpressions :: "LabelSelectorRequirement list"

record Namespaces =
  Include :: "string list"
  Exclude :: "string list"

record RemovePodsViolatingInterPodAffinityArgs =
  ArgsNamespaces :: "Namespaces option"
  ArgsLabelSelector :: "LabelSelector option"

text \<open>
  A \<open>runtime.Object\<close>: the plugin's arguments, or an object of some other type (named as
  \<open>%T\<close> prints it).
\<close>

datatype runtime_Object =
    InterPodAffinityArgsObject RemovePodsViolatingInterPodAffinityArgs
  | OtherObject string

record 's RemovePodsViolatingInterPodAffinity =
  handle :: "'s Handle"
  args :: RemovePodsViolatingInterPodAffinityArgs
  podFilter :: "pod \<Rightarrow> bool"

text \<open>
  A function that orders a slice of pods where it lies, as
  \<open>podutil.SortPodsBasedOnPriorityLowToHigh(pods)\<close> does: it returns nothing and, being a
  sort, only rearranges the slice. Which order it leaves, and what it does with ties, is up
  to the function.
\<close>

typedef in_place_sort = "{f :: pod list \<Rightarrow> pod list. \<forall>ps. mset (f ps) = mset ps}"
  morphisms rearrange Abs_in_place_sort
  by (rule exI [of _ id]) simp

text \<open>
  Functions of the packages \<open>podutil\<close>, \<open>utils\<close> and \<open>metav1\<close> that the plugin calls and
  whose bodies are not among the sources: they are parameters of the model.
  \<open>BuildFilterFunc\<close> stands for the whole chain
  \<open>NewOptions().WithNamespaces(_).WithoutNamespaces(_).WithLabelSelector(_).BuildFilterFunc()\<close>.
\<close>

record externals =
  BuildFilterFunc :: "string set \<Rightarrow> string set \<Rightarrow> LabelSelector option \<Rightarrow> string + (pod \<Rightarrow> bool)"
  SortPodsBasedOnPriorityLowToHigh :: in_place_sort
  ListPodsOnNodes :: "node list \<Rightarrow> GetPodsAssignedToNodeFunc \<Rightarrow> (pod \<Rightarrow> bool) \<Rightarrow> string + pod list"
  CheckPodAffinityViolation :: "pod \<Rightarrow> (string \<rightharpoonup> pod list) \<Rightarrow> (string \<rightharpoonup> node) \<Rightarrow> bool"
  LabelSelectorAsSelector :: "LabelSelector \<Rightarrow> string option"

record Status =
  Err :: string

section \<open>Defaulting and construction\<close>

text \<open>
  \<open>SetDefaults_RemovePodsViolatingInterPodAffinityArgs\<close> (defaults.go). The unchecked type
  assertion \<open>obj.(*RemovePodsViolatingInterPodAffinityArgs)\<close> panics on any other object:
  \<open>None\<close>. The two assignments store \<open>nil\<close> where the field is \<open>nil\<close>.
\<close>

definition SetDefaults_RemovePodsViolatingInterPodAffinityArgs ::
    "runtime_Object \<Rightarrow> runtime_Object option" where
  "SetDefaults_RemovePodsViolatingInterPodAffinityArgs obj =
     (case obj of
        OtherObject t \<Rightarrow> None
      | InterPodAffinityArgsObject a \<Rightarrow>
          (let a1 = (if ArgsNamespaces a = None then a\<lparr>ArgsNamespaces := None\<rparr> else a);
               a2 = (if ArgsLabelSelector a1 = None then a1\<lparr>ArgsLabelSelector := None\<rparr> else a1)
           in Some (InterPodAffinityArgsObject a2)))"

definition PluginName :: string where
  "PluginName = ''RemovePodsViolatingInterPodAffinity''"

text \<open>
  \<open>New\<close> (pod_affinity.go). Both namespace sets stay empty when \<open>Namespaces\<close> is \<open>nil\<close>;
  otherwise they are built from \<open>Include\<close> and \<open>Exclude\<close>. The only failures are the type
  assertion and an error of the filter builder.
\<close>

definition New :: "externals \<Rightarrow> runtime_Object \<Rightarrow> 's Handle
    \<Rightarrow> string + 's RemovePodsViolatingInterPodAffinity" where
  "New x obj h =
     (case obj of
        OtherObject t \<Rightarrow>
          Inl (''want args to be of type RemovePodsViolatingInterPodAffinityArgs, got '' @ t)
      | InterPodAffinityArgsObject a \<Rightarrow>
          (let (includedNamespaces, excludedNamespaces) =
                 (case ArgsNamespaces a of
                    None \<Rightarrow> ({}, {})
                  | Some ns \<Rightarrow> (set (Include ns), set (Exclude ns)))
           in case BuildFilterFunc x includedNamespaces excludedNamespaces (ArgsLabelSelector a) of
                Inl e \<Rightarrow> Inl (''error initializing pod filter function: '' @ e)
              | Inr f \<Rightarrow> Inr \<lparr>handle = h, args = a, podFilter = f\<rparr>))"

datatype config_error = IncludeAndExcludeBothSet | InvalidLabelSelector string

text \<open>
  Modelled from the spec: \<open>ValidateRemovePodsViolatingInterPodAffinityArgs\<close> is missing from
  the sources (only its test is present). The spec makes the include and exclude namespace
  sets mutually exclusive and calls supplying both a configuration error; the test also
  expects an error for a label selector that does not convert to a selector.
\<close>

definition ValidateRemovePodsViolatingInterPodAffinityArgs ::
    "externals \<Rightarrow> RemovePodsViolatingInterPodAffinityArgs \<Rightarrow> config_error option" where
  "ValidateRemovePodsViolatingInterPodAffinityArgs x a =
     (if (case ArgsNamespaces a of
            None \<Rightarrow> False
          | Some ns \<Rightarrow> Include ns \<noteq> [] \<and> Exclude ns \<noteq> [])
      then Some IncludeAndExcludeBothSet
      else (case ArgsLabelSelector a of
              None \<Rightarrow> None
            | Some sel \<Rightarrow>
                (case LabelSelectorAsSelector x sel of
                   None \<Rightarrow> None
                 | Some e \<Rightarrow> Some (InvalidLabelSelector e))))"

section \<open>Grouping and ordering\<close>

text \<open>Indexing a Go map: a missing key reads as the \<open>nil\<close> slice.\<close>

definition pods_of :: "(string \<rightharpoonup> pod list) \<Rightarrow> string \<Rightarrow> pod list" where
  "pods_of m k = (case m k of None \<Rightarrow> [] | Some ps \<Rightarrow> ps)"

text \<open>
  Modelled from the spec: \<open>podutil.GroupByNamespace\<close> is missing from the sources. The Pod
  Classifier maps each namespace to its pods, in input order.
\<close>

definition GroupByNamespace :: "pod list \<Rightarrow> (string \<rightharpoonup> pod list)" where
  "GroupByNamespace pods =
     foldl (\<lambda>m p. m(Namespace p \<mapsto> pods_of m (Namespace p) @ [p])) Map.empty pods"

text \<open>
  Modelled from the spec: \<open>podutil.GroupByNodeName\<close> is missing from the sources. The Pod
  Classifier maps each node name to the pods scheduled on that node, in input order.
\<close>

definition GroupByNodeName :: "pod list \<Rightarrow> (string \<rightharpoonup> pod list)" where
  "GroupByNodeName pods =
     foldl (\<lambda>m p. m(NodeName p \<mapsto> pods_of m (NodeName p) @ [p])) Map.empty pods"

text \<open>
  Modelled from the spec: \<open>utils.CreateNodeMap\<close> is missing from the sources. It is the
  node topology map, from a node's name to the node.
\<close>

definition CreateNodeMap :: "node list \<Rightarrow> (string \<rightharpoonup> node)" where
  "CreateNodeMap nodes = foldl (\<lambda>m n. m(Name n \<mapsto> n)) Map.empty nodes"

text \<open>
  Modelled from the spec: the QoS helpers of the repository are missing from the sources.
  The tiers are ordered as in the spec's example, best-effort before burstable before
  guaranteed.
\<close>

fun qos_tier :: "qos_class \<Rightarrow> nat" where
  "qos_tier BestEffort = 0"
| "qos_tier Burstable = 1"
| "qos_tier Guaranteed = 2"

text \<open>
  Modelled from the spec: the order the Priority Orderer is to establish. A lower priority
  comes first, and among equal priorities the lower QoS tier; two pods have the same rank
  when neither key tells them apart.
\<close>

definition low_to_high :: "pod \<Rightarrow> pod \<Rightarrow> bool" where
  "low_to_high p q \<longleftrightarrow>
     Priority p < Priority q \<or>
     (Priority p = Priority q \<and> qos_tier (QOSClass p) \<le> qos_tier (QOSClass q))"

definition same_rank :: "pod \<Rightarrow> pod \<Rightarrow> bool" where
  "same_rank p q \<longleftrightarrow> Priority p = Priority q \<and> QOSClass p = QOSClass q"

fun insert_low_to_high :: "pod \<Rightarrow> pod list \<Rightarrow> pod list" where
  "insert_low_to_high p [] = [p]"
| "insert_low_to_high p (q # qs) =
     (if low_to_high p q then p # q # qs else q # insert_low_to_high p qs)"

text \<open>
  Modelled from the spec: two orderings that establish this order, for the fixtures. Both
  insert each pod in front of the first pod it may precede. The first takes the pods from
  the back of the list and is stable on ties, as the spec's Priority Orderer; the second
  takes them from the front, which puts a pod in front of the pods of its rank taken before
  it.
\<close>

fun stable_sort_low_to_high :: "pod list \<Rightarrow> pod list" where
  "stable_sort_low_to_high [] = []"
| "stable_sort_low_to_high (p # ps) = insert_low_to_high p (stable_sort_low_to_high ps)"

definition reversing_sort_low_to_high :: "pod list \<Rightarrow> pod list" where
  "reversing_sort_low_to_high ps = foldl (\<lambda>acc p. insert_low_to_high p acc) [] ps"

text \<open>
  The call \<open>podutil.SortPodsBasedOnPriorityLowToHigh(pods)\<close> in \<open>Deschedule\<close> returns
  nothing: it sorts the slice \<open>pods := podsOnANode[node.Name]\<close> where it lies, and that is
  the slice the map holds. A missing key gives the \<open>nil\<close> slice and leaves the map as it is.
\<close>

definition sort_in_place :: "in_place_sort \<Rightarrow> (string \<rightharpoonup> pod list) \<Rightarrow> string
    \<Rightarrow> (string \<rightharpoonup> pod list)" where
  "sort_in_place srt m k = (case m k of None \<Rightarrow> m | Some ps \<Rightarrow> m(k \<mapsto> rearrange srt ps))"

section \<open>The eviction loop\<close>

text \<open>
  What a run does, in order: the start of a node's processing (the \<open>Processing node\<close> log
  line), each consultation of \<open>CheckPodAffinityViolation\<close>, and each call of \<open>Evict\<close>
  with the error it returned.
\<close>

datatype event =
    ProcessingNode string
  | CheckedAffinity pod
  | EvictCalled pod "eviction_error option"

text \<open>
  How the inner loop over one node's pods ends: it runs out of pods, or \<open>continue loop\<close>,
  or \<open>return nil\<close>.
\<close>

datatype flow = Completed | ContinueLoop | Return

text \<open>
  The inner loop \<open>for i := 0; i < totalPods; i++\<close> over the sorted pods of one node. In the
  type switch, \<open>default\<close> takes \<open>nil\<close> and every error other than the two limit errors, and
  falls out of the switch to the next pod.
\<close>

fun pods_loop :: "externals \<Rightarrow> 's RemovePodsViolatingInterPodAffinity \<Rightarrow> ctx
    \<Rightarrow> (string \<rightharpoonup> pod list) \<Rightarrow> (string \<rightharpoonup> node) \<Rightarrow> pod list \<Rightarrow> 's
    \<Rightarrow> flow \<times> 's \<times> event list" where
  "pods_loop x d c podsInANamespace nodeMap [] s = (Completed, s, [])"
| "pods_loop x d c podsInANamespace nodeMap (p # ps) s =
     (if CheckPodAffinityViolation x p podsInANamespace nodeMap then
        (if Filter (Evictor (handle d)) p \<and> PreEvictionFilter (Evictor (handle d)) p then
           (case Evict (Evictor (handle d)) c p \<lparr>StrategyName = PluginName\<rparr> s of
              (err, s') \<Rightarrow>
                (case err of
                   Some EvictionNodeLimitError \<Rightarrow>
                     (ContinueLoop, s', [CheckedAffinity p, EvictCalled p err])
                 | Some EvictionTotalLimitError \<Rightarrow>
                     (Return, s', [CheckedAffinity p, EvictCalled p err])
                 | _ \<Rightarrow>
                     (case pods_loop x d c podsInANamespace nodeMap ps s' of
                        (f, s'', tr) \<Rightarrow> (f, s'', CheckedAffinity p # EvictCalled p err # tr))))
         else
           (case pods_loop x d c podsInANamespace nodeMap ps s of
              (f, s', tr) \<Rightarrow> (f, s', CheckedAffinity p # tr)))
      else
        (case pods_loop x d c podsInANamespace nodeMap ps s of
           (f, s', tr) \<Rightarrow> (f, s', CheckedAffinity p # tr)))"

text \<open>
  The outer loop \<open>loop: for _, node := range nodes\<close>. It carries the map \<open>podsOnANode\<close>,
  whose slices the sort reorders, and the evictor's state.
\<close>

fun nodes_loop :: "externals \<Rightarrow> 's RemovePodsViolatingInterPodAffinity \<Rightarrow> ctx
    \<Rightarrow> (string \<rightharpoonup> pod list) \<Rightarrow> (string \<rightharpoonup> node) \<Rightarrow> node list
    \<Rightarrow> (string \<rightharpoonup> pod list) \<Rightarrow> 's
    \<Rightarrow> (string \<rightharpoonup> pod list) \<times> 's \<times> event list" where
  "nodes_loop x d c podsInANamespace nodeMap [] podsOnANode s = (podsOnANode, s, [])"
| "nodes_loop x d c podsInANamespace nodeMap (n # ns) podsOnANode s =
     (let sorted = sort_in_place (SortPodsBasedOnPriorityLowToHigh x) podsOnANode (Name n);
          pods = pods_of sorted (Name n)
      in case pods_loop x d c podsInANamespace nodeMap pods s of
           (f, s', tr) \<Rightarrow>
             (case f of
                Return \<Rightarrow> (sorted, s', ProcessingNode (Name n) # tr)
              | _ \<Rightarrow>
                  (case nodes_loop x d c podsInANamespace nodeMap ns sorted s' of
                     (m, s'', tr') \<Rightarrow> (m, s'', ProcessingNode (Name n) # tr @ tr'))))"

text \<open>The map \<open>podsOnANode\<close> once the pods of node \<open>n\<close> have been ordered.\<close>

abbreviation node_sorted :: "externals \<Rightarrow> (string \<rightharpoonup> pod list) \<Rightarrow> node
    \<Rightarrow> (string \<rightharpoonup> pod list)" where
  "node_sorted x m n \<equiv> sort_in_place (SortPodsBasedOnPriorityLowToHigh x) m (Name n)"

text \<open>
  The outcome of one call of \<open>Deschedule\<close>: the returned \<open>*Status\<close> (\<open>None\<close> is \<open>nil\<close>),
  the map \<open>podsOnANode\<close> as the run leaves it, the evictor's state, and what was done.
\<close>

record 's run =
  ret :: "Status option"
  podsOnANode :: "string \<rightharpoonup> pod list"
  evictor_state :: 's
  calls :: "event list"

definition Deschedule :: "externals \<Rightarrow> 's RemovePodsViolatingInterPodAffinity \<Rightarrow> ctx
    \<Rightarrow> node list \<Rightarrow> 's \<Rightarrow> 's run" where
  "Deschedule x d c nodes s =
     (case ListPodsOnNodes x nodes (GetPodsAssignedToNodeFunc (handle d)) (podFilter d) of
        Inl e \<Rightarrow>
          \<lparr>ret = Some \<lparr>Err = ''error listing all pods: '' @ e\<rparr>,
           podsOnANode = Map.empty, evictor_state = s, calls = []\<rparr>
      | Inr pods \<Rightarrow>
          (case nodes_loop x d c (GroupByNamespace pods) (CreateNodeMap nodes) nodes
                  (GroupByNodeName pods) s of
             (m, s', tr) \<Rightarrow> \<lparr>ret = None, podsOnANode = m, evictor_state = s', calls = tr\<rparr>))"

section \<open>Observations on a run\<close>

text \<open>
  A pod for which the loop reaches the call of \<open>Evict\<close>: the oracle flags it and both
  filters of the evictor admit it.
\<close>

definition attempts :: "externals \<Rightarrow> 's RemovePodsViolatingInterPodAffinity
    \<Rightarrow> (string \<rightharpoonup> pod list) \<Rightarrow> (string \<rightharpoonup> node) \<Rightarrow> pod \<Rightarrow> bool" where
  "attempts x d podsInANamespace nodeMap p \<longleftrightarrow>
     CheckPodAffinityViolation x p podsInANamespace nodeMap \<and>
     Filter (Evictor (handle d)) p \<and> PreEvictionFilter (Evictor (handle d)) p"

fun total_limit_call :: "event \<Rightarrow> bool" where
  "total_limit_call (EvictCalled p err) = (err = Some EvictionTotalLimitError)"
| "total_limit_call e = False"

text \<open>The pods handed to \<open>Evict\<close>, and the pods shown to the oracle, in the order of the run.\<close>

fun evicted :: "event list \<Rightarrow> pod list" where
  "evicted [] = []"
| "evicted (EvictCalled p err # es) = p # evicted es"
| "evicted (e # es) = evicted es"

fun checked :: "event list \<Rightarrow> pod list" where
  "checked [] = []"
| "checked (CheckedAffinity p # es) = p # checked es"
| "checked (e # es) = checked es"

text \<open>The names of the nodes whose processing began, in the order of the run.\<close>

fun processed :: "event list \<Rightarrow> string list" where
  "processed [] = []"
| "processed (ProcessingNode k # es) = k # processed es"
| "processed (e # es) = processed es"

fun is_processing :: "event \<Rightarrow> bool" where
  "is_processing (ProcessingNode k) = True"
| "is_processing e = False"


text \<open>A call of \<open>Evict\<close> that returned one of the two limit errors.\<close>

fun limit_call :: "event \<Rightarrow> bool" where
  "limit_call (EvictCalled p err) =
     (err = Some EvictionNodeLimitError \<or> err = Some EvictionTotalLimitError)"
| "limit_call e = False"

text \<open>The plugin whose evictor is called with the context \<open>c\<close> whatever context it is given.\<close>

definition evicting_under :: "ctx \<Rightarrow> 's RemovePodsViolatingInterPodAffinity
    \<Rightarrow> 's RemovePodsViolatingInterPodAffinity" where
  "evicting_under c d =
     d\<lparr>handle := (handle d)\<lparr>Evictor :=
          (Evictor (handle d))\<lparr>Evict := (\<lambda>c'. Evict (Evictor (handle d)) c)\<rparr>\<rparr>\<rparr>"

text \<open>The node an event belongs to: the node being processed, or the node of the pod.\<close>

fun concerns_node :: "string \<Rightarrow> event \<Rightarrow> bool" where
  "concerns_node k (ProcessingNode n) = (n = k)"
| "concerns_node k (CheckedAffinity p) = (NodeName p = k)"
| "concerns_node k (EvictCalled p err) = (NodeName p = k)"

text \<open>Every pod filed under a node name reports that node name.\<close>

definition grouped_by_node :: "(string \<rightharpoonup> pod list) \<Rightarrow> bool" where
  "grouped_by_node m \<longleftrightarrow> (\<forall>k p. p \<in> set (pods_of m k) \<longrightarrow> NodeName p = k)"

section \<open>Test fixtures\<close>

text \<open>
  Nodes and pods in the manner of \<open>TestInterPodAffinity\<close>, an oracle that flags pods by
  name, an evictor that admits every pod, counts its evictions and answers scripted pods
  with a scripted error, a lister that concatenates the pods of the nodes, and the two
  orderings.
\<close>

definition by_priority :: in_place_sort where
  "by_priority = Abs_in_place_sort stable_sort_low_to_high"

definition by_priority_reversing :: in_place_sort where
  "by_priority_reversing = Abs_in_place_sort reversing_sort_low_to_high"

definition test_node :: "string \<Rightarrow> node" where
  "test_node n = \<lparr>Name = n, Labels = [(''region'', ''main-region'')]\<rparr>"

definition test_pod :: "string \<Rightarrow> string \<Rightarrow> int \<Rightarrow> pod" where
  "test_pod name n prio =
     \<lparr>PodName = name, Namespace = ''default'', NodeName = n, Priority = prio,
      QOSClass = BestEffort\<rparr>"

fun list_pods_on_nodes :: "node list \<Rightarrow> GetPodsAssignedToNodeFunc \<Rightarrow> (pod \<Rightarrow> bool)
    \<Rightarrow> string + pod list" where
  "list_pods_on_nodes [] get f = Inr []"
| "list_pods_on_nodes (n # ns) get f =
     (case get (Name n) f of
        Inl e \<Rightarrow> Inl e
      | Inr ps \<Rightarrow>
          (case list_pods_on_nodes ns get f of Inl e \<Rightarrow> Inl e | Inr qs \<Rightarrow> Inr (ps @ qs)))"

definition test_externals :: "string list \<Rightarrow> externals" where
  "test_externals violating =
     \<lparr>BuildFilterFunc = (\<lambda>inc exc sel. Inr (\<lambda>p.
          (inc = {} \<or> Namespace p \<in> inc) \<and> (exc = {} \<or> Namespace p \<notin> exc))),
      SortPodsBasedOnPriorityLowToHigh = by_priority,
      ListPodsOnNodes = list_pods_on_nodes,
      CheckPodAffinityViolation = (\<lambda>p nsm nm. PodName p \<in> set violating),
      LabelSelectorAsSelector = (\<lambda>sel. None)\<rparr>"

definition test_evictor :: "(string \<times> eviction_error) list \<Rightarrow> nat evictor" where
  "test_evictor script =
     \<lparr>Filter = (\<lambda>p. True),
      PreEvictionFilter = (\<lambda>p. True),
      Evict = (\<lambda>c p opts n.
        case map_of script (PodName p) of None \<Rightarrow> (None, Suc n) | Some e \<Rightarrow> (Some e, n))\<rparr>"

definition test_plugin :: "pod list \<Rightarrow> (string \<times> eviction_error) list
    \<Rightarrow> nat RemovePodsViolatingInterPodAffinity" where
  "test_plugin pods script =
     \<lparr>handle = \<lparr>GetPodsAssignedToNodeFunc =
                  (\<lambda>n f. Inr (filter (\<lambda>p. NodeName p = n \<and> f p) pods)),
                Evictor = test_evictor script\<rparr>,
      args = \<lparr>ArgsNamespaces = None, ArgsLabelSelector = None\<rparr>,
      podFilter = (\<lambda>p. True)\<rparr>"

definition unsynced_plugin :: "nat RemovePodsViolatingInterPodAffinity" where
  "unsynced_plugin =
     \<lparr>handle = \<lparr>GetPodsAssignedToNodeFunc = (\<lambda>n f. Inl ''index not synced''),
                Evictor = test_evictor []\<rparr>,
      args = \<lparr>ArgsNamespaces = None, ArgsLabelSelector = None\<rparr>,
      podFilter = (\<lambda>p. True)\<rparr>"

definition background :: ctx where
  "background = \<lparr>cancelled = False\<rparr>"

definition cancelled_ctx :: ctx where
  "cancelled_ctx = \<lparr>cancelled = True\<rparr>"

text \<open>
  The spec's scenario of three nodes with one pod each, and the nodes and pods of
  \<open>TestInterPodAffinity\<close> (\<open>p4\<close> and \<open>p5\<close> share node \<open>n4\<close>, \<open>p5\<close> has priority 100).
\<close>

definition three_nodes :: "node list" where
  "three_nodes = [test_node ''a'', test_node ''b'', test_node ''c'']"

definition three_pods :: "pod list" where
  "three_pods = [test_pod ''pa'' ''a'' 0, test_pod ''pb'' ''b'' 0, test_pod ''pc'' ''c'' 0]"

definition interpod_nodes :: "node list" where
  "interpod_nodes = [test_node ''n1'', test_node ''n2'', test_node ''n3'', test_node ''n4'']"

definition interpod_pods :: "pod list" where
  "interpod_pods =
     [test_pod ''p1'' ''n1'' 0, test_pod ''p2'' ''n2'' 0, test_pod ''p3'' ''n3'' 0,
      test_pod ''p4'' ''n4'' 0, test_pod ''p5'' ''n4'' 100]"


definition shared_node_pods :: "pod list" where
  "shared_node_pods =
     [test_pod ''p1'' ''a'' 0, test_pod ''p2'' ''a'' 10, test_pod ''p3'' ''b'' 0]"

text \<open>The arguments of the validation test's case \<open>invalid namespaces args\<close>.\<close>

definition include_and_exclude_args :: RemovePodsViolatingInterPodAffinityArgs where
  "include_and_exclude_args =
     \<lparr>ArgsNamespaces = Some \<lparr>Include = [''default''], Exclude = [''kube-system'']\<rparr>,
      ArgsLabelSelector = None\<rparr>"

section \<open>Steps of the two loops\<close>

lemma pods_loop_skip:
  "\<not> attempts x d nsm nm p \<Longrightarrow>
   pods_loop x d c nsm nm (p # ps) s =
     (case pods_loop x d c nsm nm ps s of (f, s', tr) \<Rightarrow> (f, s', CheckedAffinity p # tr))"
  by (auto simp: attempts_def)

lemma pods_loop_node_limit:
  "attempts x d nsm nm p \<Longrightarrow>
   Evict (Evictor (handle d)) c p \<lparr>StrategyName = PluginName\<rparr> s = (Some EvictionNodeLimitError, s') \<Longrightarrow>
   pods_loop x d c nsm nm (p # ps) s =
     (ContinueLoop, s', [CheckedAffinity p, EvictCalled p (Some EvictionNodeLimitError)])"
  by (simp add: attempts_def)

lemma pods_loop_total_limit:
  "attempts x d nsm nm p \<Longrightarrow>
   Evict (Evictor (handle d)) c p \<lparr>StrategyName = PluginName\<rparr> s = (Some EvictionTotalLimitError, s') \<Longrightarrow>
   pods_loop x d c nsm nm (p # ps) s =
     (Return, s', [CheckedAffinity p, EvictCalled p (Some EvictionTotalLimitError)])"
  by (simp add: attempts_def)

lemma pods_loop_default:
  "attempts x d nsm nm p \<Longrightarrow>
   Evict (Evictor (handle d)) c p \<lparr>StrategyName = PluginName\<rparr> s = (err, s') \<Longrightarrow>
   err \<noteq> Some EvictionNodeLimitError \<Longrightarrow> err \<noteq> Some EvictionTotalLimitError \<Longrightarrow>
   pods_loop x d c nsm nm (p # ps) s =
     (case pods_loop x d c nsm nm ps s' of
        (f, s'', tr) \<Rightarrow> (f, s'', CheckedAffinity p # EvictCalled p err # tr))"
  by (auto simp: attempts_def split: option.splits eviction_error.splits)

lemma pods_loop_step_cases [case_names skip node_limit total_limit default]:
  obtains
    (skip) "\<not> attempts x d nsm nm p"
  | (node_limit) s' where "attempts x d nsm nm p"
      "Evict (Evictor (handle d)) c p \<lparr>StrategyName = PluginName\<rparr> s = (Some EvictionNodeLimitError, s')"
  | (total_limit) s' where "attempts x d nsm nm p"
      "Evict (Evictor (handle d)) c p \<lparr>StrategyName = PluginName\<rparr> s = (Some EvictionTotalLimitError, s')"
  | (default) err s' where "attempts x d nsm nm p"
      "Evict (Evictor (handle d)) c p \<lparr>StrategyName = PluginName\<rparr> s = (err, s')"
      "err \<noteq> Some EvictionNodeLimitError" "err \<noteq> Some EvictionTotalLimitError"
  by (cases "Evict (Evictor (handle d)) c p \<lparr>StrategyName = PluginName\<rparr> s") blast

declare pods_loop.simps(2) [simp del]

lemma nodes_loop_return:
  "pods_loop x d c nsm nm (pods_of (node_sorted x g n) (Name n)) s = (Return, s', tr) \<Longrightarrow>
   nodes_loop x d c nsm nm (n # ns) g s = (node_sorted x g n, s', ProcessingNode (Name n) # tr)"
  by (simp add: Let_def)

lemma nodes_loop_next:
  "pods_loop x d c nsm nm (pods_of (node_sorted x g n) (Name n)) s = (f, s', tr) \<Longrightarrow>
   f \<noteq> Return \<Longrightarrow>
   nodes_loop x d c nsm nm (n # ns) g s =
     (case nodes_loop x d c nsm nm ns (node_sorted x g n) s' of
        (m, s'', tr') \<Rightarrow> (m, s'', ProcessingNode (Name n) # tr @ tr'))"
  by (cases f) (simp_all add: Let_def)

declare nodes_loop.simps(2) [simp del]

lemma pods_loop_total:
  "pods_loop x d c nsm nm ps s = (f, s', tr) \<Longrightarrow>
   length (dropWhile (\<lambda>e. \<not> total_limit_call e) tr) = (if f = Return then 1 else 0)"
proof (induction ps arbitrary: s f s' tr)
  case Nil
  then show ?case by simp
next
  case (Cons p ps)
  show ?case
  proof (cases rule: pods_loop_step_cases [where x = x and d = d and nsm = nsm and nm = nm and p = p and c = c and s = s])
    case skip
    obtain f0 s0 tr0 where r: "pods_loop x d c nsm nm ps s = (f0, s0, tr0)"
      by (metis prod_cases3)
    with skip Cons.prems have "f = f0" "tr = CheckedAffinity p # tr0"
      by (simp_all add: pods_loop_skip)
    then show ?thesis using Cons.IH [OF r] by simp
  next
    case (node_limit s1)
    then show ?thesis using Cons.prems by (auto simp: pods_loop_node_limit)
  next
    case (total_limit s1)
    then show ?thesis using Cons.prems by (auto simp: pods_loop_total_limit)
  next
    case (default err s1)
    obtain f0 s0 tr0 where r: "pods_loop x d c nsm nm ps s1 = (f0, s0, tr0)"
      by (metis prod_cases3)
    with default Cons.prems have "f = f0" "tr = CheckedAffinity p # EvictCalled p err # tr0"
      by (simp_all add: pods_loop_default)
    then show ?thesis using Cons.IH [OF r] default by simp
  qed
qed

lemma pods_loop_no_total:
  assumes "pods_loop x d c nsm nm ps s = (f, s', tr)" and "f \<noteq> Return"
  shows "\<forall>e \<in> set tr. \<not> total_limit_call e"
proof -
  have "dropWhile (\<lambda>e. \<not> total_limit_call e) tr = []"
    using pods_loop_total [OF assms(1)] assms(2) by simp
  then show ?thesis by (simp add: dropWhile_eq_Nil_conv)
qed

lemma nodes_loop_total:
  "nodes_loop x d c nsm nm ns g s = (g', s', tr) \<Longrightarrow>
   length (dropWhile (\<lambda>e. \<not> total_limit_call e) tr) \<le> 1"
proof (induction ns arbitrary: g s g' s' tr)
  case Nil
  then show ?case by simp
next
  case (Cons n ns)
  obtain f s1 tr1 where pl: "pods_loop x d c nsm nm (pods_of (node_sorted x g n) (Name n)) s = (f, s1, tr1)"
    by (metis prod_cases3)
  show ?case
  proof (cases "f = Return")
    case True
    then have "tr = ProcessingNode (Name n) # tr1"
      using Cons.prems pl by (simp add: nodes_loop_return)
    then show ?thesis using pods_loop_total [OF pl] True by simp
  next
    case False
    obtain g2 s2 tr2 where nl: "nodes_loop x d c nsm nm ns (node_sorted x g n) s1 = (g2, s2, tr2)"
      by (metis prod_cases3)
    have tr: "tr = ProcessingNode (Name n) # tr1 @ tr2"
      using Cons.prems nodes_loop_next [OF pl False, of ns] nl by simp
    have "dropWhile (\<lambda>e. \<not> total_limit_call e) (tr1 @ tr2) = dropWhile (\<lambda>e. \<not> total_limit_call e) tr2"
      using pods_loop_no_total [OF pl False] by (simp add: dropWhile_append)
    then show ?thesis using Cons.IH [OF nl] tr by simp
  qed
qed

lemma dropWhile_after:
  "\<not> P e \<Longrightarrow> Suc (length post) \<le> length (dropWhile P (pre @ e # post))"
  by (induction pre) auto

section \<open>Ordering and grouping\<close>

lemma mset_rearrange: "mset (rearrange srt ps) = mset ps"
  using rearrange [of srt] by simp

lemma set_rearrange: "set (rearrange srt ps) = set ps"
  using mset_rearrange [of srt ps] by (rule mset_eq_setD)

lemma rearrange_Nil: "rearrange srt [] = []"
  using mset_rearrange [of srt "[]"] by simp



lemma same_rank_low_to_high: "same_rank r p \<Longrightarrow> same_rank r q \<Longrightarrow> low_to_high p q"
  by (simp add: same_rank_def low_to_high_def)

lemma mset_insert_low_to_high: "mset (insert_low_to_high p qs) = add_mset p (mset qs)"
  by (induction qs) simp_all



lemma mset_stable_sort: "mset (stable_sort_low_to_high ps) = mset ps"
  by (induction ps) (simp_all add: mset_insert_low_to_high)


lemma filter_insert_low_to_high:
  "filter (same_rank r) (insert_low_to_high p qs) =
     (if same_rank r p then p # filter (same_rank r) qs else filter (same_rank r) qs)"
proof (induction qs)
  case Nil
  show ?case by simp
next
  case (Cons q qs)
  show ?case
  proof (cases "low_to_high p q")
    case True
    then show ?thesis by simp
  next
    case False
    then have "\<not> (same_rank r p \<and> same_rank r q)"
      using same_rank_low_to_high by blast
    then show ?thesis using False Cons.IH by auto
  qed
qed

lemma stable_sort_keeps_ties:
  "filter (same_rank r) (stable_sort_low_to_high ps) = filter (same_rank r) ps"
  by (induction ps) (simp_all add: filter_insert_low_to_high)

lemma mset_foldl_insert:
  "mset (foldl (\<lambda>acc p. insert_low_to_high p acc) acc ps) = mset acc + mset ps"
  by (induction ps arbitrary: acc) (simp_all add: mset_insert_low_to_high)


lemma mset_reversing_sort: "mset (reversing_sort_low_to_high ps) = mset ps"
  by (simp add: reversing_sort_low_to_high_def mset_foldl_insert)


lemma rearrange_by_priority: "rearrange by_priority = stable_sort_low_to_high"
  by (simp add: by_priority_def Abs_in_place_sort_inverse mset_stable_sort)

lemma rearrange_by_priority_reversing:
  "rearrange by_priority_reversing = reversing_sort_low_to_high"
  by (simp add: by_priority_reversing_def Abs_in_place_sort_inverse mset_reversing_sort)

lemma pods_of_sort_in_place:
  "pods_of (sort_in_place srt m k) k' =
     (if k' = k then rearrange srt (pods_of m k) else pods_of m k')"
  by (simp add: pods_of_def sort_in_place_def rearrange_Nil split: option.splits)


lemma mset_pods_of_sort_in_place:
  "mset (pods_of (sort_in_place srt m k) k') = mset (pods_of m k')"
  by (simp add: pods_of_sort_in_place mset_rearrange)

lemma pods_of_foldl_group:
  "pods_of (foldl (\<lambda>m p. m(key p \<mapsto> pods_of m (key p) @ [p])) m0 ps) k =
     pods_of m0 k @ filter (\<lambda>p. key p = k) ps"
  by (induction ps arbitrary: m0) (simp_all add: pods_of_def)

lemma pods_of_GroupByNodeName:
  "pods_of (GroupByNodeName pods) k = filter (\<lambda>p. NodeName p = k) pods"
  using pods_of_foldl_group [of NodeName Map.empty pods k]
  by (simp add: GroupByNodeName_def pods_of_def)

lemma grouped_GroupByNodeName: "grouped_by_node (GroupByNodeName pods)"
  by (simp add: grouped_by_node_def pods_of_GroupByNodeName)

lemma grouped_sort_in_place:
  "grouped_by_node m \<Longrightarrow> grouped_by_node (sort_in_place srt m k)"
  by (simp add: grouped_by_node_def pods_of_sort_in_place set_rearrange)

lemmas test_defs = test_node_def test_pod_def test_externals_def test_evictor_def test_plugin_def
  background_def cancelled_ctx_def Deschedule_def GroupByNodeName_def GroupByNamespace_def
  CreateNodeMap_def pods_of_def sort_in_place_def low_to_high_def PluginName_def
  rearrange_by_priority rearrange_by_priority_reversing reversing_sort_low_to_high_def
  pods_loop.simps(2) nodes_loop.simps(2)

section \<open>Total budget exhausted\<close>

text \<open>
  C1: once a call of \<open>Evict\<close> has returned \<open>EvictionTotalLimitError\<close>, the run is
  over: that call is the last thing the run does (no further pod is checked or evicted and
  no further node is processed), and \<open>Deschedule\<close> returns \<open>nil\<close>, not a failure.
\<close>

theorem total_limit_ends_run:
  assumes "calls (Deschedule x d c nodes s) = pre @ EvictCalled p (Some EvictionTotalLimitError) # post"
  shows "post = [] \<and> ret (Deschedule x d c nodes s) = None"
proof (cases "ListPodsOnNodes x nodes (GetPodsAssignedToNodeFunc (handle d)) (podFilter d)")
  case (Inl e)
  then show ?thesis using assms by (simp add: Deschedule_def)
next
  case (Inr pods)
  obtain m s' tr where nl: "nodes_loop x d c (GroupByNamespace pods) (CreateNodeMap nodes) nodes
                  (GroupByNodeName pods) s = (m, s', tr)"
    by (metis prod_cases3)
  have r: "Deschedule x d c nodes s = \<lparr>ret = None, podsOnANode = m, evictor_state = s', calls = tr\<rparr>"
    using Inr nl by (simp add: Deschedule_def)
  have "tr = pre @ EvictCalled p (Some EvictionTotalLimitError) # post"
    using assms r by simp
  moreover have "Suc (length post) \<le> length (dropWhile (\<lambda>e. \<not> total_limit_call e) (pre @ EvictCalled p (Some EvictionTotalLimitError) # post))"
    by (rule dropWhile_after) simp
  ultimately have "Suc (length post) \<le> length (dropWhile (\<lambda>e. \<not> total_limit_call e) tr)"
    by simp
  then have "length post = 0" using nodes_loop_total [OF nl] by linarith
  then have "post = []" by simp
  then show ?thesis using r by simp
qed

theorem total_limit_ends_run_witness:
  "calls (Deschedule (test_externals [''p1'', ''p2''])
     (test_plugin [test_pod ''p1'' ''a'' 0, test_pod ''p2'' ''b'' 0]
        [(''p1'', EvictionTotalLimitError)])
     background [test_node ''a'', test_node ''b''] 0) =
     [ProcessingNode ''a'', CheckedAffinity (test_pod ''p1'' ''a'' 0)] @
     EvictCalled (test_pod ''p1'' ''a'' 0) (Some EvictionTotalLimitError) # [] \<and>
   ret (Deschedule (test_externals [''p1'', ''p2''])
     (test_plugin [test_pod ''p1'' ''a'' 0, test_pod ''p2'' ''b'' 0]
        [(''p1'', EvictionTotalLimitError)])
     background [test_node ''a'', test_node ''b''] 0) = None"
proof -
  have h: "calls (Deschedule (test_externals [''p1'', ''p2''])
     (test_plugin [test_pod ''p1'' ''a'' 0, test_pod ''p2'' ''b'' 0]
        [(''p1'', EvictionTotalLimitError)])
     background [test_node ''a'', test_node ''b''] 0) =
     [ProcessingNode ''a'', CheckedAffinity (test_pod ''p1'' ''a'' 0)] @
     EvictCalled (test_pod ''p1'' ''a'' 0) (Some EvictionTotalLimitError) # []"
    by (simp add: test_defs)
  show ?thesis using total_limit_ends_run [OF h] h by simp
qed

section \<open>Listing failure\<close>

text \<open>
  C7: when listing the pods fails, \<open>Deschedule\<close> returns a status that carries the
  error, leaves the evictor untouched, and processes no node, checks no pod and calls
  \<open>Evict\<close> never.
\<close>

theorem listing_error_aborts:
  assumes "ListPodsOnNodes x nodes (GetPodsAssignedToNodeFunc (handle d)) (podFilter d) = Inl e"
  shows "Deschedule x d c nodes s =
           \<lparr>ret = Some \<lparr>Err = ''error listing all pods: '' @ e\<rparr>,
            podsOnANode = Map.empty, evictor_state = s, calls = []\<rparr>"
  using assms by (simp add: Deschedule_def)

theorem listing_error_aborts_witness:
  "ListPodsOnNodes (test_externals [''p1'']) [test_node ''a'', test_node ''b'']
     (GetPodsAssignedToNodeFunc (handle unsynced_plugin)) (podFilter unsynced_plugin) =
     Inl ''index not synced'' \<and>
   Deschedule (test_externals [''p1'']) unsynced_plugin background [test_node ''a'', test_node ''b''] 0 =
     \<lparr>ret = Some \<lparr>Err = ''error listing all pods: index not synced''\<rparr>,
      podsOnANode = Map.empty, evictor_state = 0, calls = []\<rparr>"
proof -
  have h: "ListPodsOnNodes (test_externals [''p1'']) [test_node ''a'', test_node ''b'']
     (GetPodsAssignedToNodeFunc (handle unsynced_plugin)) (podFilter unsynced_plugin) =
     Inl ''index not synced''"
    by (simp add: test_externals_def unsynced_plugin_def test_node_def)
  show ?thesis using listing_error_aborts [OF h, of background 0] h by simp
qed

section \<open>Defaulting\<close>

text \<open>
  C10: on an arguments object \<open>SetDefaults_RemovePodsViolatingInterPodAffinityArgs\<close>
  returns the object as it was, and applying it twice is applying it once.
\<close>

theorem SetDefaults_is_identity:
  "SetDefaults_RemovePodsViolatingInterPodAffinityArgs (InterPodAffinityArgsObject a) =
     Some (InterPodAffinityArgsObject a) \<and>
   Option.bind (SetDefaults_RemovePodsViolatingInterPodAffinityArgs (InterPodAffinityArgsObject a))
     SetDefaults_RemovePodsViolatingInterPodAffinityArgs =
     SetDefaults_RemovePodsViolatingInterPodAffinityArgs (InterPodAffinityArgsObject a)"
proof -
  have "SetDefaults_RemovePodsViolatingInterPodAffinityArgs (InterPodAffinityArgsObject a) =
     Some (InterPodAffinityArgsObject a)"
    by (cases a) (simp add: SetDefaults_RemovePodsViolatingInterPodAffinityArgs_def Let_def)
  then show ?thesis by simp
qed

section \<open>Include and exclude namespaces\<close>

text \<open>
  C8, as amended: arguments with both an include and an exclude namespace list are
  rejected by argument validation. \<open>New\<close> has no such check: it hands both sets to the
  filter builder and fails exactly when the builder fails; when it fails there is no
  plugin.
\<close>

theorem include_and_exclude:
  assumes "ArgsNamespaces a = Some ns" and "Include ns \<noteq> []" and "Exclude ns \<noteq> []"
  shows "ValidateRemovePodsViolatingInterPodAffinityArgs x a = Some IncludeAndExcludeBothSet \<and>
         New x (InterPodAffinityArgsObject a) h =
           (case BuildFilterFunc x (set (Include ns)) (set (Exclude ns)) (ArgsLabelSelector a) of
              Inl e \<Rightarrow> Inl (''error initializing pod filter function: '' @ e)
            | Inr f \<Rightarrow> Inr \<lparr>handle = h, args = a, podFilter = f\<rparr>)"
  using assms by (simp add: ValidateRemovePodsViolatingInterPodAffinityArgs_def New_def)

theorem include_and_exclude_witness:
  "ArgsNamespaces include_and_exclude_args =
     Some \<lparr>Include = [''default''], Exclude = [''kube-system'']\<rparr> \<and>
   ValidateRemovePodsViolatingInterPodAffinityArgs (test_externals []) include_and_exclude_args =
     Some IncludeAndExcludeBothSet \<and>
   args (projr (New (test_externals []) (InterPodAffinityArgsObject include_and_exclude_args)
            (handle (test_plugin [] [])))) = include_and_exclude_args"
proof -
  have h: "ArgsNamespaces include_and_exclude_args =
     Some \<lparr>Include = [''default''], Exclude = [''kube-system'']\<rparr>"
    by (simp add: include_and_exclude_args_def)
  show ?thesis
    using include_and_exclude [OF h, of "test_externals []" "handle (test_plugin [] [])"] h
    by (simp add: test_externals_def)
qed
text \<open>
  C8 as stated fails for \<open>New\<close>: with a filter builder that accepts any two namespace
  sets, \<open>New\<close> returns a plugin for arguments that set both lists.
\<close>

theorem New_include_and_exclude_counterexample:
  "\<not> isl (New (test_externals []) (InterPodAffinityArgsObject include_and_exclude_args)
            (handle (test_plugin [] [])))"
  by (simp add: New_def include_and_exclude_args_def test_externals_def)

section \<open>What a trace holds\<close>

lemma pods_loop_events:
  "e \<in> set (snd (snd (pods_loop x d c nsm nm ps s))) \<Longrightarrow>
   \<exists>q \<in> set ps. e = CheckedAffinity q \<or> (\<exists>err. e = EvictCalled q err)"
proof (induction ps arbitrary: s)
  case Nil
  then show ?case by simp
next
  case (Cons p ps)
  show ?case
  proof (cases rule: pods_loop_step_cases [where x = x and d = d and nsm = nsm and nm = nm and p = p and c = c and s = s])
    case skip
    then show ?thesis using Cons.prems Cons.IH [of s]
      by (auto simp: pods_loop_skip split: prod.splits)
  next
    case (node_limit s1)
    then show ?thesis using Cons.prems by (auto simp: pods_loop_node_limit)
  next
    case (total_limit s1)
    then show ?thesis using Cons.prems by (auto simp: pods_loop_total_limit)
  next
    case (default err s1)
    then show ?thesis using Cons.prems Cons.IH [of s1]
      by (auto simp: pods_loop_default split: prod.splits)
  qed
qed

section \<open>How often a pod is evicted\<close>

lemma evicted_append: "evicted (es @ fs) = evicted es @ evicted fs"
  by (induction es rule: evicted.induct) simp_all

lemma pods_loop_evicted:
  "mset (evicted (snd (snd (pods_loop x d c nsm nm ps s)))) \<subseteq>#
     mset (filter (attempts x d nsm nm) ps)"
proof (induction ps arbitrary: s)
  case Nil
  show ?case by simp
next
  case (Cons p ps)
  show ?case
  proof (cases rule: pods_loop_step_cases [where x = x and d = d and nsm = nsm and nm = nm and p = p and c = c and s = s])
    case skip
    then show ?thesis using Cons.IH [of s]
      by (auto simp: pods_loop_skip split: prod.splits)
  next
    case (node_limit s1)
    then show ?thesis by (simp add: pods_loop_node_limit)
  next
    case (total_limit s1)
    then show ?thesis by (simp add: pods_loop_total_limit)
  next
    case (default err s1)
    then show ?thesis using Cons.IH [of s1]
      by (auto simp: pods_loop_default split: prod.splits)
  qed
qed

lemma nodes_loop_evicted:
  "distinct (map Name ns) \<Longrightarrow> nodes_loop x d c nsm nm ns g s = (m, s', tr) \<Longrightarrow>
   mset (evicted tr) \<subseteq>#
     mset (filter (attempts x d nsm nm) (concat (map (\<lambda>n. pods_of g (Name n)) ns)))"
proof (induction ns arbitrary: g s m s' tr)
  case Nil
  then show ?case by simp
next
  case (Cons n ns)
  let ?A = "attempts x d nsm nm"
  obtain f s1 tr1 where pl:
    "pods_loop x d c nsm nm (pods_of (node_sorted x g n) (Name n)) s = (f, s1, tr1)"
    by (metis prod_cases3)
  have "mset (evicted tr1) \<subseteq>#
          mset (filter ?A (pods_of (node_sorted x g n) (Name n)))"
    using pods_loop_evicted [of x d c nsm nm "pods_of (node_sorted x g n) (Name n)" s] pl
    by simp
  then have 1: "mset (evicted tr1) \<subseteq># mset (filter ?A (pods_of g (Name n)))"
    by (simp add: pods_of_sort_in_place mset_rearrange)
  show ?case
  proof (cases "f = Return")
    case True
    then have "tr = ProcessingNode (Name n) # tr1"
      using Cons.prems pl by (simp add: nodes_loop_return)
    then show ?thesis using 1 by (simp add: subset_mset.add_increasing2)
  next
    case False
    obtain g2 s2 tr2 where nl:
      "nodes_loop x d c nsm nm ns (node_sorted x g n) s1 = (g2, s2, tr2)"
      by (metis prod_cases3)
    have tr: "tr = ProcessingNode (Name n) # tr1 @ tr2"
      using Cons.prems nodes_loop_next [OF pl False, of ns] nl by simp
    have same: "map (\<lambda>n'. pods_of (node_sorted x g n) (Name n')) ns =
                map (\<lambda>n'. pods_of g (Name n')) ns"
    proof -
      have nin: "Name n \<notin> Name ` set ns"
        using Cons.prems(1) by simp
      have "Name n' \<noteq> Name n" if "n' \<in> set ns" for n'
        using nin that by (metis imageI)
      then show ?thesis by (simp add: pods_of_sort_in_place)
    qed
    have 2: "mset (evicted tr2) \<subseteq>#
               mset (filter ?A (concat (map (\<lambda>n'. pods_of g (Name n')) ns)))"
      using Cons.IH [OF _ nl] Cons.prems(1) same by simp
    show ?thesis using 1 2 tr by (simp add: evicted_append subset_mset.add_mono)
  qed
qed

lemma mset_concat_groups:
  "distinct ks \<Longrightarrow>
   mset (concat (map (\<lambda>k. filter (\<lambda>p. key p = k) ps) ks)) =
     mset (filter (\<lambda>p. key p \<in> set ks) ps)"
proof (induction ks)
  case Nil
  show ?case by simp
next
  case (Cons k ks)
  have "mset (filter (\<lambda>p. key p = k) ps) + mset (filter (\<lambda>p. key p \<in> set ks) ps) =
        mset (filter (\<lambda>p. key p = k \<or> key p \<in> set ks) ps)"
    using Cons.prems by (induction ps) auto
  then show ?case using Cons by simp
qed

lemma length_filter_mono:
  "(\<And>x. P x \<Longrightarrow> Q x) \<Longrightarrow> length (filter P xs) \<le> length (filter Q xs)"
  by (induction xs) auto

lemma distinct_mset_subseteq:
  "mset xs \<subseteq># mset ys \<Longrightarrow> distinct ys \<Longrightarrow> distinct xs"
proof -
  assume sub: "mset xs \<subseteq># mset ys" and d: "distinct ys"
  have "count (mset xs) a \<le> 1" for a
  proof -
    have "count (mset xs) a \<le> count (mset ys) a"
      using sub by (rule mset_subset_eq_count)
    also have "\<dots> \<le> 1"
      using d by (simp add: distinct_count_atmost_1)
    finally show ?thesis .
  qed
  then show "distinct xs"
    unfolding distinct_count_atmost_1 by (metis count_mset_0_iff le_antisym less_one linorder_not_less nat_less_le)
qed

text \<open>
  C5, as amended: when no node name occurs twice in the node list, every pod is handed to
  \<open>Evict\<close> at most as often as it occurs among the candidates that the oracle flags and
  both filters admit; so the number of \<open>Evict\<close> calls is at most the number of flagged
  candidates (none when the oracle flags none), and when no candidate is listed twice no
  pod is evicted twice.
\<close>

theorem evictions_bounded:
  assumes "distinct (map Name nodes)"
    and "ListPodsOnNodes x nodes (GetPodsAssignedToNodeFunc (handle d)) (podFilter d) = Inr pods"
  shows "mset (evicted (calls (Deschedule x d c nodes s))) \<subseteq>#
           mset (filter (attempts x d (GroupByNamespace pods) (CreateNodeMap nodes)) pods) \<and>
         length (evicted (calls (Deschedule x d c nodes s))) \<le>
           length (filter (\<lambda>p. CheckPodAffinityViolation x p (GroupByNamespace pods)
                                 (CreateNodeMap nodes)) pods) \<and>
         (distinct pods \<longrightarrow> distinct (evicted (calls (Deschedule x d c nodes s))))"
proof -
  let ?A = "attempts x d (GroupByNamespace pods) (CreateNodeMap nodes)"
  obtain m s' tr where nl: "nodes_loop x d c (GroupByNamespace pods) (CreateNodeMap nodes) nodes
                  (GroupByNodeName pods) s = (m, s', tr)"
    by (metis prod_cases3)
  have r: "calls (Deschedule x d c nodes s) = tr"
    using assms(2) nl by (simp add: Deschedule_def)
  have "concat (map (\<lambda>n. pods_of (GroupByNodeName pods) (Name n)) nodes) =
        concat (map (\<lambda>k. filter (\<lambda>p. NodeName p = k) pods) (map Name nodes))"
    by (simp add: pods_of_GroupByNodeName comp_def)
  then have "mset (concat (map (\<lambda>n. pods_of (GroupByNodeName pods) (Name n)) nodes)) =
        mset (filter (\<lambda>p. NodeName p \<in> set (map Name nodes)) pods)"
    using mset_concat_groups [OF assms(1), of NodeName pods] by simp
  then have "mset (filter ?A (concat (map (\<lambda>n. pods_of (GroupByNodeName pods) (Name n)) nodes))) =
        filter_mset ?A (filter_mset (\<lambda>p. NodeName p \<in> set (map Name nodes)) (mset pods))"
    by (simp only: mset_filter)
  also have "\<dots> \<subseteq># filter_mset ?A (mset pods)"
    by (rule multiset_filter_mono) (rule multiset_filter_subset)
  finally have "mset (filter ?A (concat (map (\<lambda>n. pods_of (GroupByNodeName pods) (Name n)) nodes)))
      \<subseteq># mset (filter ?A pods)"
    by simp
  with nodes_loop_evicted [OF assms(1) nl]
  have 1: "mset (evicted tr) \<subseteq># mset (filter ?A pods)"
    by (rule subset_mset.order_trans)
  have "size (mset (evicted tr)) \<le> size (mset (filter ?A pods))"
    using 1 by (rule size_mset_mono)
  then have "length (evicted tr) \<le> length (filter ?A pods)" by (simp only: size_mset)
  also have "\<dots> \<le> length (filter (\<lambda>p. CheckPodAffinityViolation x p (GroupByNamespace pods)
                                 (CreateNodeMap nodes)) pods)"
    by (rule length_filter_mono) (simp add: attempts_def)
  finally have 2: "length (evicted tr) \<le> length (filter (\<lambda>p. CheckPodAffinityViolation x p
      (GroupByNamespace pods) (CreateNodeMap nodes)) pods)" .
  have 3: "distinct (evicted tr)" if "distinct pods"
    using 1 that distinct_mset_subseteq [of "evicted tr" "filter ?A pods"] by simp
  show ?thesis using 1 2 3 r by simp
qed

theorem evictions_bounded_witness:
  "distinct (map Name interpod_nodes) \<and>
   ListPodsOnNodes (test_externals [''p4'', ''p5'']) interpod_nodes
     (GetPodsAssignedToNodeFunc (handle (test_plugin interpod_pods [])))
     (podFilter (test_plugin interpod_pods [])) = Inr interpod_pods \<and>
   evicted (calls (Deschedule (test_externals [''p4'', ''p5''])
     (test_plugin interpod_pods []) background interpod_nodes 0)) =
     [test_pod ''p4'' ''n4'' 0, test_pod ''p5'' ''n4'' 100] \<and>
   mset [test_pod ''p4'' ''n4'' 0, test_pod ''p5'' ''n4'' 100] \<subseteq>#
     mset (filter (attempts (test_externals [''p4'', ''p5'']) (test_plugin interpod_pods [])
       (GroupByNamespace interpod_pods) (CreateNodeMap interpod_nodes)) interpod_pods) \<and>
   length [test_pod ''p4'' ''n4'' 0, test_pod ''p5'' ''n4'' 100] \<le>
     length (filter (\<lambda>p. CheckPodAffinityViolation (test_externals [''p4'', ''p5'']) p
       (GroupByNamespace interpod_pods) (CreateNodeMap interpod_nodes)) interpod_pods) \<and>
   distinct [test_pod ''p4'' ''n4'' 0, test_pod ''p5'' ''n4'' 100]"
proof -
  let ?x = "test_externals [''p4'', ''p5'']"
  let ?d = "test_plugin interpod_pods []"
  have h1: "distinct (map Name interpod_nodes)"
    by (simp add: interpod_nodes_def test_node_def)
  have h2: "ListPodsOnNodes ?x interpod_nodes (GetPodsAssignedToNodeFunc (handle ?d)) (podFilter ?d) =
      Inr interpod_pods"
    by (simp add: interpod_nodes_def interpod_pods_def test_defs)
  have h3: "evicted (calls (Deschedule ?x ?d background interpod_nodes 0)) =
     [test_pod ''p4'' ''n4'' 0, test_pod ''p5'' ''n4'' 100]"
    by (simp add: interpod_nodes_def interpod_pods_def test_defs)
  have h4: "distinct interpod_pods"
    by (simp add: interpod_pods_def test_pod_def)
  from evictions_bounded [OF h1 h2, of background 0] h1 h2 h3 h4 show ?thesis by simp
qed

text \<open>
  C5 as stated fails when a node occurs twice in the node list: the node is processed
  twice, and its only pod is handed to \<open>Evict\<close> again (four times with a lister that
  lists the node's pods once per occurrence).
\<close>

theorem repeated_node_evicts_again_counterexample:
  "evicted (calls (Deschedule (test_externals [''p1''])
     (test_plugin [test_pod ''p1'' ''a'' 0] [])
     background [test_node ''a'', test_node ''a''] 0)) =
   [test_pod ''p1'' ''a'' 0, test_pod ''p1'' ''a'' 0, test_pod ''p1'' ''a'' 0, test_pod ''p1'' ''a'' 0]"
  by (simp add: test_defs)

section \<open>Node budget exhausted\<close>

lemma pods_loop_node_limit_last:
  "pods_loop x d c nsm nm ps s = (f, s', pre @ EvictCalled p (Some EvictionNodeLimitError) # post) \<Longrightarrow>
   post = [] \<and> f = ContinueLoop \<and> p \<in> set ps \<and>
   (\<exists>s0. Evict (Evictor (handle d)) c p \<lparr>StrategyName = PluginName\<rparr> s0 =
           (Some EvictionNodeLimitError, s'))"
proof (induction ps arbitrary: s pre f s')
  case Nil
  then show ?case by simp
next
  case (Cons p0 ps)
  let ?E = "EvictCalled p (Some EvictionNodeLimitError)"
  show ?case
  proof (cases rule: pods_loop_step_cases [where x = x and d = d and nsm = nsm and nm = nm and p = p0 and c = c and s = s])
    case skip
    obtain f0 s0 tr0 where r: "pods_loop x d c nsm nm ps s = (f0, s0, tr0)"
      by (metis prod_cases3)
    with skip Cons.prems have eq: "f = f0" "s' = s0" "CheckedAffinity p0 # tr0 = pre @ ?E # post"
      by (simp_all add: pods_loop_skip)
    then obtain pre' where "tr0 = pre' @ ?E # post"
      by (auto simp: Cons_eq_append_conv)
    with r have "pods_loop x d c nsm nm ps s = (f0, s0, pre' @ ?E # post)" by simp
    from Cons.IH [OF this] eq show ?thesis by auto
  next
    case (node_limit s1)
    with Cons.prems have "f = ContinueLoop" "s' = s1"
      "[CheckedAffinity p0, EvictCalled p0 (Some EvictionNodeLimitError)] = pre @ ?E # post"
      by (simp_all add: pods_loop_node_limit)
    then show ?thesis using node_limit(2) by (auto simp: Cons_eq_append_conv)
  next
    case (total_limit s1)
    with Cons.prems have
      "[CheckedAffinity p0, EvictCalled p0 (Some EvictionTotalLimitError)] = pre @ ?E # post"
      by (simp add: pods_loop_total_limit)
    then show ?thesis by (auto simp: Cons_eq_append_conv)
  next
    case (default err s1)
    obtain f0 s0 tr0 where r: "pods_loop x d c nsm nm ps s1 = (f0, s0, tr0)"
      by (metis prod_cases3)
    with default Cons.prems have eq: "f = f0" "s' = s0"
      "CheckedAffinity p0 # EvictCalled p0 err # tr0 = pre @ ?E # post"
      by (simp_all add: pods_loop_default)
    then obtain pre' where "tr0 = pre' @ ?E # post"
      using default(3) by (auto simp: Cons_eq_append_conv)
    with r have "pods_loop x d c nsm nm ps s1 = (f0, s0, pre' @ ?E # post)" by simp
    from Cons.IH [OF this] eq show ?thesis by auto
  qed
qed

lemma nodes_loop_events:
  "grouped_by_node g \<Longrightarrow> nodes_loop x d c nsm nm ns g s = (m, s', tr) \<Longrightarrow> e \<in> set tr \<Longrightarrow>
   \<exists>n \<in> set ns. concerns_node (Name n) e"
proof (induction ns arbitrary: g s m s' tr)
  case Nil
  then show ?case by simp
next
  case (Cons n ns)
  obtain f s1 tr1 where pl:
    "pods_loop x d c nsm nm (pods_of (node_sorted x g n) (Name n)) s = (f, s1, tr1)"
    by (metis prod_cases3)
  have own: "concerns_node (Name n) e'" if "e' \<in> set tr1" for e'
  proof -
    from that pl pods_loop_events [of e' x d c nsm nm "pods_of (node_sorted x g n) (Name n)" s]
    obtain q where q: "q \<in> set (pods_of (node_sorted x g n) (Name n))"
      "e' = CheckedAffinity q \<or> (\<exists>err. e' = EvictCalled q err)"
      by auto
    then have "q \<in> set (pods_of g (Name n))"
      by (simp add: pods_of_sort_in_place set_rearrange)
    then have "NodeName q = Name n"
      using Cons.prems(1) by (simp add: grouped_by_node_def)
    then show ?thesis using q(2) by auto
  qed
  show ?case
  proof (cases "f = Return")
    case True
    then have "tr = ProcessingNode (Name n) # tr1"
      using Cons.prems pl by (simp add: nodes_loop_return)
    then show ?thesis using Cons.prems(3) own by auto
  next
    case False
    obtain g2 s2 tr2 where nl:
      "nodes_loop x d c nsm nm ns (node_sorted x g n) s1 = (g2, s2, tr2)"
      by (metis prod_cases3)
    have tr: "tr = ProcessingNode (Name n) # tr1 @ tr2"
      using Cons.prems nodes_loop_next [OF pl False, of ns] nl by simp
    have "\<exists>n' \<in> set ns. concerns_node (Name n') e" if "e \<in> set tr2"
      using Cons.IH [OF grouped_sort_in_place [OF Cons.prems(1)] nl that] .
    then show ?thesis using Cons.prems(3) own tr by auto
  qed
qed

lemma nodes_loop_after_node_limit:
  "grouped_by_node g \<Longrightarrow>
   nodes_loop x d c nsm nm ns g s = (m, s', pre @ EvictCalled p (Some EvictionNodeLimitError) # post) \<Longrightarrow>
   \<exists>ns1 n ns2 g2 s0 s2.
     ns = ns1 @ n # ns2 \<and> Name n = NodeName p \<and> grouped_by_node g2 \<and>
     Evict (Evictor (handle d)) c p \<lparr>StrategyName = PluginName\<rparr> s0 =
       (Some EvictionNodeLimitError, s2) \<and>
     nodes_loop x d c nsm nm ns2 g2 s2 = (m, s', post)"
proof (induction ns arbitrary: g s pre)
  case Nil
  then show ?case by simp
next
  case (Cons n ns)
  let ?E = "EvictCalled p (Some EvictionNodeLimitError)"
  let ?g = "node_sorted x g n"
  obtain f s1 tr1 where pl: "pods_loop x d c nsm nm (pods_of ?g (Name n)) s = (f, s1, tr1)"
    by (metis prod_cases3)
  have gg: "grouped_by_node ?g"
    by (rule grouped_sort_in_place [OF Cons.prems(1)])
  have here: "post' = [] \<and> f = ContinueLoop \<and> NodeName p = Name n \<and>
      (\<exists>s0. Evict (Evictor (handle d)) c p \<lparr>StrategyName = PluginName\<rparr> s0 =
           (Some EvictionNodeLimitError, s1))"
    if "tr1 = pre' @ ?E # post'" for pre' post'
  proof -
    from pl that have "pods_loop x d c nsm nm (pods_of ?g (Name n)) s = (f, s1, pre' @ ?E # post')"
      by simp
    from pods_loop_node_limit_last [OF this]
    have 1: "post' = []" "f = ContinueLoop" "p \<in> set (pods_of ?g (Name n))"
      "\<exists>s0. Evict (Evictor (handle d)) c p \<lparr>StrategyName = PluginName\<rparr> s0 =
           (Some EvictionNodeLimitError, s1)"
      by simp_all
    from 1(3) have "p \<in> set (pods_of g (Name n))"
      by (simp add: pods_of_sort_in_place set_rearrange)
    then have "NodeName p = Name n"
      using Cons.prems(1) by (simp add: grouped_by_node_def)
    then show ?thesis using 1 by simp
  qed
  show ?case
  proof (cases "f = Return")
    case True
    then have "ProcessingNode (Name n) # tr1 = pre @ ?E # post"
      using Cons.prems(2) pl by (simp add: nodes_loop_return)
    then obtain pre' where "tr1 = pre' @ ?E # post"
      by (auto simp: Cons_eq_append_conv)
    from here [OF this] True show ?thesis by simp
  next
    case False
    obtain g2 s2 tr2 where nl: "nodes_loop x d c nsm nm ns ?g s1 = (g2, s2, tr2)"
      by (metis prod_cases3)
    have eq: "m = g2" "s' = s2" "ProcessingNode (Name n) # tr1 @ tr2 = pre @ ?E # post"
      using Cons.prems(2) nodes_loop_next [OF pl False, of ns] nl by simp_all
    then obtain pre0 where pre0: "tr1 @ tr2 = pre0 @ ?E # post"
      by (auto simp: Cons_eq_append_conv)
    then consider
        (first) us where "tr1 = pre0 @ ?E # us" "post = us @ tr2"
      | (later) us where "tr2 = us @ ?E # post"
      by (auto simp: append_eq_append_conv2 append_eq_Cons_conv Cons_eq_append_conv)
    then show ?thesis
    proof cases
      case first
      from here [OF first(1)] first(2) have
        "post = tr2" "NodeName p = Name n"
        "\<exists>s0. Evict (Evictor (handle d)) c p \<lparr>StrategyName = PluginName\<rparr> s0 =
           (Some EvictionNodeLimitError, s1)"
        by simp_all
      then obtain s0 where s0: "Evict (Evictor (handle d)) c p \<lparr>StrategyName = PluginName\<rparr> s0 =
           (Some EvictionNodeLimitError, s1)"
        by blast
      have "n # ns = [] @ n # ns \<and> Name n = NodeName p \<and> grouped_by_node ?g \<and>
        Evict (Evictor (handle d)) c p \<lparr>StrategyName = PluginName\<rparr> s0 =
           (Some EvictionNodeLimitError, s1) \<and>
        nodes_loop x d c nsm nm ns ?g s1 = (m, s', post)"
        using \<open>post = tr2\<close> \<open>NodeName p = Name n\<close> gg s0 nl eq(1,2) by simp
      then show ?thesis by blast
    next
      case later
      with nl eq have "nodes_loop x d c nsm nm ns ?g s1 = (m, s', us @ ?E # post)" by simp
      from Cons.IH [OF gg this]
      obtain ns1 n' ns2 g3 s0 s3 where
        "ns = ns1 @ n' # ns2" "Name n' = NodeName p" "grouped_by_node g3"
        "Evict (Evictor (handle d)) c p \<lparr>StrategyName = PluginName\<rparr> s0 =
           (Some EvictionNodeLimitError, s3)"
        "nodes_loop x d c nsm nm ns2 g3 s3 = (m, s', post)"
        by blast
      then have "n # ns = (n # ns1) @ n' # ns2 \<and> Name n' = NodeName p \<and> grouped_by_node g3 \<and>
        Evict (Evictor (handle d)) c p \<lparr>StrategyName = PluginName\<rparr> s0 =
           (Some EvictionNodeLimitError, s3) \<and>
        nodes_loop x d c nsm nm ns2 g3 s3 = (m, s', post)"
        by simp
      then show ?thesis by blast
    qed
  qed
qed

lemma concerns_node_unique: "concerns_node k e \<Longrightarrow> concerns_node k' e \<Longrightarrow> k = k'"
  by (cases e) auto

text \<open>
  C2, as amended: when no node name occurs twice in the node list and \<open>Evict\<close> returns
  \<open>EvictionNodeLimitError\<close> for a pod, nothing that follows in the run concerns that
  pod's node (no pod of it is checked or evicted, and it is not processed again), and what
  follows is exactly the outer loop over the nodes after it in the node list, started from
  the state that call of \<open>Evict\<close> left.
\<close>

theorem node_limit_abandons_node:
  assumes "distinct (map Name nodes)"
    and "ListPodsOnNodes x nodes (GetPodsAssignedToNodeFunc (handle d)) (podFilter d) = Inr pods"
    and "calls (Deschedule x d c nodes s) =
           pre @ EvictCalled p (Some EvictionNodeLimitError) # post"
  shows "\<not> list_ex (concerns_node (NodeName p)) post \<and>
         (\<exists>ns1 n ns2 m0 s0 s1.
            nodes = ns1 @ n # ns2 \<and> Name n = NodeName p \<and>
            Evict (Evictor (handle d)) c p \<lparr>StrategyName = PluginName\<rparr> s0 =
              (Some EvictionNodeLimitError, s1) \<and>
            nodes_loop x d c (GroupByNamespace pods) (CreateNodeMap nodes) ns2 m0 s1 =
              (podsOnANode (Deschedule x d c nodes s),
               evictor_state (Deschedule x d c nodes s), post))"
proof -
  let ?nsm = "GroupByNamespace pods" and ?nm = "CreateNodeMap nodes"
  obtain m s' tr where nl:
    "nodes_loop x d c ?nsm ?nm nodes (GroupByNodeName pods) s = (m, s', tr)"
    by (metis prod_cases3)
  have r: "Deschedule x d c nodes s =
      \<lparr>ret = None, podsOnANode = m, evictor_state = s', calls = tr\<rparr>"
    using assms(2) nl by (simp add: Deschedule_def)
  with assms(3) nl have
    "nodes_loop x d c ?nsm ?nm nodes (GroupByNodeName pods) s =
       (m, s', pre @ EvictCalled p (Some EvictionNodeLimitError) # post)"
    by simp
  from nodes_loop_after_node_limit [OF grouped_GroupByNodeName this]
  obtain ns1 n ns2 g2 s0 s2 where d:
    "nodes = ns1 @ n # ns2" "Name n = NodeName p" "grouped_by_node g2"
    "Evict (Evictor (handle d)) c p \<lparr>StrategyName = PluginName\<rparr> s0 =
       (Some EvictionNodeLimitError, s2)"
    "nodes_loop x d c ?nsm ?nm ns2 g2 s2 = (m, s', post)"
    by blast
  have nin: "Name n \<notin> Name ` set ns2"
    using assms(1) d(1) by simp
  have "\<not> concerns_node (NodeName p) e" if "e \<in> set post" for e
  proof
    assume a: "concerns_node (NodeName p) e"
    from nodes_loop_events [OF d(3) d(5) that]
    obtain n' where n': "n' \<in> set ns2" "concerns_node (Name n') e" by blast
    from concerns_node_unique [OF a n'(2)] d(2) have "Name n' = Name n" by simp
    with n'(1) nin show False by (metis imageI)
  qed
  then have 1: "\<not> list_ex (concerns_node (NodeName p)) post"
    by (auto simp: list_ex_iff)
  have "nodes = ns1 @ n # ns2 \<and> Name n = NodeName p \<and>
        Evict (Evictor (handle d)) c p \<lparr>StrategyName = PluginName\<rparr> s0 =
          (Some EvictionNodeLimitError, s2) \<and>
        nodes_loop x d c ?nsm ?nm ns2 g2 s2 =
          (podsOnANode (Deschedule x d c nodes s),
           evictor_state (Deschedule x d c nodes s), post)"
    using d r by simp
  then show ?thesis using 1 by blast
qed

theorem node_limit_abandons_node_witness:
  "distinct (map Name three_nodes) \<and>
   calls (Deschedule (test_externals [''pa'', ''pb'', ''pc''])
      (test_plugin three_pods [(''pb'', EvictionNodeLimitError)]) background three_nodes 0) =
     [ProcessingNode ''a'', CheckedAffinity (test_pod ''pa'' ''a'' 0),
      EvictCalled (test_pod ''pa'' ''a'' 0) None,
      ProcessingNode ''b'', CheckedAffinity (test_pod ''pb'' ''b'' 0)] @
     EvictCalled (test_pod ''pb'' ''b'' 0) (Some EvictionNodeLimitError) #
     [ProcessingNode ''c'', CheckedAffinity (test_pod ''pc'' ''c'' 0),
      EvictCalled (test_pod ''pc'' ''c'' 0) None] \<and>
   \<not> list_ex (concerns_node (NodeName (test_pod ''pb'' ''b'' 0)))
     [ProcessingNode ''c'', CheckedAffinity (test_pod ''pc'' ''c'' 0),
      EvictCalled (test_pod ''pc'' ''c'' 0) None] \<and>
   evictor_state (Deschedule (test_externals [''pa'', ''pb'', ''pc''])
      (test_plugin three_pods [(''pb'', EvictionNodeLimitError)]) background three_nodes 0) = 2"
proof -
  let ?x = "test_externals [''pa'', ''pb'', ''pc'']"
  let ?d = "test_plugin three_pods [(''pb'', EvictionNodeLimitError)]"
  have h1: "distinct (map Name three_nodes)"
    by (simp add: three_nodes_def test_node_def)
  have h2: "ListPodsOnNodes ?x three_nodes (GetPodsAssignedToNodeFunc (handle ?d)) (podFilter ?d) =
      Inr three_pods"
    by (simp add: three_nodes_def three_pods_def test_defs)
  have h3: "calls (Deschedule ?x ?d background three_nodes 0) =
     [ProcessingNode ''a'', CheckedAffinity (test_pod ''pa'' ''a'' 0),
      EvictCalled (test_pod ''pa'' ''a'' 0) None,
      ProcessingNode ''b'', CheckedAffinity (test_pod ''pb'' ''b'' 0)] @
     EvictCalled (test_pod ''pb'' ''b'' 0) (Some EvictionNodeLimitError) #
     [ProcessingNode ''c'', CheckedAffinity (test_pod ''pc'' ''c'' 0),
      EvictCalled (test_pod ''pc'' ''c'' 0) None]"
    by (simp add: three_nodes_def three_pods_def test_defs)
  have h4: "evictor_state (Deschedule ?x ?d background three_nodes 0) = 2"
    by (simp add: three_nodes_def three_pods_def test_defs)
  from node_limit_abandons_node [OF h1 h2 h3] h1 h3 h4 show ?thesis by blast
qed

text \<open>
  C2 as stated fails when the node occurs again later in the node list: after the node
  limit error on node \<open>a\<close> the loop goes on to the next entry, \<open>a\<close> again, and calls
  \<open>Evict\<close> for the pod of \<open>a\<close> once more.
\<close>

theorem node_limit_repeated_node_counterexample:
  "calls (Deschedule (test_externals [''p1''])
     (test_plugin [test_pod ''p1'' ''a'' 0] [(''p1'', EvictionNodeLimitError)])
     background [test_node ''a'', test_node ''a''] 0) =
   [ProcessingNode ''a'', CheckedAffinity (test_pod ''p1'' ''a'' 0)] @
   EvictCalled (test_pod ''p1'' ''a'' 0) (Some EvictionNodeLimitError) #
   [ProcessingNode ''a'', CheckedAffinity (test_pod ''p1'' ''a'' 0),
    EvictCalled (test_pod ''p1'' ''a'' 0) (Some EvictionNodeLimitError)]"
  by (simp add: test_defs)

section \<open>What the run writes\<close>

lemma processed_append: "processed (es @ fs) = processed es @ processed fs"
  by (induction es rule: processed.induct) simp_all

lemma checked_append: "checked (es @ fs) = checked es @ checked fs"
  by (induction es rule: checked.induct) simp_all

lemma processed_Nil: "\<forall>e \<in> set es. \<not> is_processing e \<Longrightarrow> processed es = []"
  by (induction es rule: processed.induct) simp_all

lemma pods_loop_no_processing:
  "pods_loop x d c nsm nm ps s = (f, s', tr) \<Longrightarrow> \<forall>e \<in> set tr. \<not> is_processing e"
  using pods_loop_events [of _ x d c nsm nm ps s] by fastforce

lemma pods_loop_processed:
  "pods_loop x d c nsm nm ps s = (f, s', tr) \<Longrightarrow> processed tr = []"
  by (rule processed_Nil) (rule pods_loop_no_processing)










section \<open>Cancellation\<close>

lemma pods_loop_evicting_under:
  "pods_loop x (evicting_under c d) c' nsm nm ps s = pods_loop x d c nsm nm ps s"
proof (induction ps arbitrary: s)
  case Nil
  show ?case by simp
next
  case (Cons p ps)
  have a: "attempts x (evicting_under c d) nsm nm p = attempts x d nsm nm p"
    by (simp add: attempts_def evicting_under_def)
  have e: "Evict (Evictor (handle (evicting_under c d))) c' p \<lparr>StrategyName = PluginName\<rparr> s =
           Evict (Evictor (handle d)) c p \<lparr>StrategyName = PluginName\<rparr> s"
    by (simp add: evicting_under_def)
  show ?case
  proof (cases rule: pods_loop_step_cases [where x = x and d = d and nsm = nsm and nm = nm and p = p and c = c and s = s])
    case skip
    then show ?thesis using a Cons.IH by (simp add: pods_loop_skip)
  next
    case (node_limit s1)
    then show ?thesis using a e by (simp add: pods_loop_node_limit)
  next
    case (total_limit s1)
    then show ?thesis using a e by (simp add: pods_loop_total_limit)
  next
    case (default err s1)
    then show ?thesis using a e Cons.IH by (simp add: pods_loop_default)
  qed
qed

lemma nodes_loop_evicting_under:
  "nodes_loop x (evicting_under c d) c' nsm nm ns g s = nodes_loop x d c nsm nm ns g s"
  by (induction ns arbitrary: g s)
     (simp_all add: nodes_loop.simps(2) Let_def pods_loop_evicting_under
        split: prod.splits flow.splits)

lemma Deschedule_evicting_under:
  "Deschedule x (evicting_under c d) c' nodes s = Deschedule x d c nodes s"
proof -
  have "GetPodsAssignedToNodeFunc (handle (evicting_under c d)) =
        GetPodsAssignedToNodeFunc (handle d)"
    and "podFilter (evicting_under c d) = podFilter d"
    by (simp_all add: evicting_under_def)
  then show ?thesis
    by (simp add: Deschedule_def nodes_loop_evicting_under split: sum.splits)
qed

lemma pods_loop_complete:
  "pods_loop x d c nsm nm ps s = (f, s', tr) \<Longrightarrow> \<not> list_ex limit_call tr \<Longrightarrow>
   f = Completed \<and> checked tr = ps"
proof (induction ps arbitrary: s f s' tr)
  case Nil
  then show ?case by simp
next
  case (Cons p ps)
  show ?case
  proof (cases rule: pods_loop_step_cases [where x = x and d = d and nsm = nsm and nm = nm and p = p and c = c and s = s])
    case skip
    obtain f0 s0 tr0 where r: "pods_loop x d c nsm nm ps s = (f0, s0, tr0)"
      by (metis prod_cases3)
    with skip Cons.prems have "f = f0" "tr = CheckedAffinity p # tr0"
      by (simp_all add: pods_loop_skip)
    then show ?thesis using Cons.IH [OF r] Cons.prems(2) by simp
  next
    case (node_limit s1)
    then show ?thesis using Cons.prems by (auto simp: pods_loop_node_limit)
  next
    case (total_limit s1)
    then show ?thesis using Cons.prems by (auto simp: pods_loop_total_limit)
  next
    case (default err s1)
    obtain f0 s0 tr0 where r: "pods_loop x d c nsm nm ps s1 = (f0, s0, tr0)"
      by (metis prod_cases3)
    with default Cons.prems have "f = f0" "tr = CheckedAffinity p # EvictCalled p err # tr0"
      by (simp_all add: pods_loop_default)
    then show ?thesis using Cons.IH [OF r] Cons.prems(2) by simp
  qed
qed

lemma pods_loop_not_returning:
  assumes "pods_loop x d c nsm nm ps s = (f, s', tr)" and "\<not> list_ex total_limit_call tr"
  shows "f \<noteq> Return"
proof
  assume "f = Return"
  with pods_loop_total [OF assms(1)]
  have "length (dropWhile (\<lambda>e. \<not> total_limit_call e) tr) \<noteq> 0" by simp
  then have "dropWhile (\<lambda>e. \<not> total_limit_call e) tr \<noteq> []" by simp
  then have "\<exists>e \<in> set tr. total_limit_call e"
    unfolding dropWhile_eq_Nil_conv by blast
  with assms(2) show False by (simp add: list_ex_iff)
qed

lemma nodes_loop_all_processed:
  "nodes_loop x d c nsm nm ns g s = (m, s', tr) \<Longrightarrow> \<not> list_ex total_limit_call tr \<Longrightarrow>
   processed tr = map Name ns"
proof (induction ns arbitrary: g s m s' tr)
  case Nil
  then show ?case by simp
next
  case (Cons n ns)
  obtain f s1 tr1 where pl:
    "pods_loop x d c nsm nm (pods_of (node_sorted x g n) (Name n)) s = (f, s1, tr1)"
    by (metis prod_cases3)
  note np = pods_loop_processed [OF pl]
  have nr: "f \<noteq> Return"
  proof
    assume ret: "f = Return"
    then have "tr = ProcessingNode (Name n) # tr1"
      using Cons.prems(1) pl by (simp add: nodes_loop_return)
    with Cons.prems(2) have "\<not> list_ex total_limit_call tr1" by simp
    from pods_loop_not_returning [OF pl this] ret show False by simp
  qed
  obtain g2 s2 tr2 where nl:
    "nodes_loop x d c nsm nm ns (node_sorted x g n) s1 = (g2, s2, tr2)"
    by (metis prod_cases3)
  have tr: "tr = ProcessingNode (Name n) # tr1 @ tr2"
    using Cons.prems(1) nodes_loop_next [OF pl nr, of ns] nl by simp
  with Cons.prems(2) have "\<not> list_ex total_limit_call tr2" by simp
  from Cons.IH [OF nl this] tr np show ?case by (simp add: processed_append)
qed

lemma mset_concat_node_sorted:
  "mset (concat (map (\<lambda>n'. pods_of (sort_in_place srt g k) (Name n')) ns)) =
   mset (concat (map (\<lambda>n'. pods_of g (Name n')) ns))"
  by (induction ns) (simp_all add: mset_pods_of_sort_in_place)

lemma nodes_loop_all_checked:
  "nodes_loop x d c nsm nm ns g s = (m, s', tr) \<Longrightarrow> \<not> list_ex limit_call tr \<Longrightarrow>
   mset (checked tr) = mset (concat (map (\<lambda>n. pods_of g (Name n)) ns))"
proof (induction ns arbitrary: g s m s' tr)
  case Nil
  then show ?case by simp
next
  case (Cons n ns)
  obtain f s1 tr1 where pl:
    "pods_loop x d c nsm nm (pods_of (node_sorted x g n) (Name n)) s = (f, s1, tr1)"
    by (metis prod_cases3)
  have sub: "\<not> list_ex limit_call tr1"
    using Cons.prems pl
    by (cases "f = Return")
       (auto simp: nodes_loop_return nodes_loop_next split: prod.splits)
  from pods_loop_complete [OF pl sub]
  have f: "f = Completed" and ch: "checked tr1 = pods_of (node_sorted x g n) (Name n)"
    by simp_all
  obtain g2 s2 tr2 where nl:
    "nodes_loop x d c nsm nm ns (node_sorted x g n) s1 = (g2, s2, tr2)"
    by (metis prod_cases3)
  have tr: "tr = ProcessingNode (Name n) # tr1 @ tr2"
    using Cons.prems(1) nodes_loop_next [OF pl, of ns] nl f by simp
  with Cons.prems(2) have "\<not> list_ex limit_call tr2" by simp
  from Cons.IH [OF nl this]
  have "mset (checked tr2) = mset (concat (map (\<lambda>n'. pods_of g (Name n')) ns))"
    by (simp only: mset_concat_node_sorted)
  then show ?case
    using tr ch by (simp add: checked_append mset_pods_of_sort_in_place)
qed

text \<open>
  C4, as amended: \<open>Deschedule\<close> never looks at its context; it only passes it to every
  call of \<open>Evict\<close>. A run under a context \<open>c\<close> is the run, under any other context, of
  the plugin whose evictor is always called with \<open>c\<close>. And whatever the context, cancelled
  or not, a run whose listing succeeded processes every node of the list, in order, unless
  a call of \<open>Evict\<close> returns \<open>EvictionTotalLimitError\<close>, and shows every candidate pod of
  every listed node to the oracle unless a call of \<open>Evict\<close> returns one of the two limit
  errors.
\<close>

theorem Deschedule_ignores_ctx:
  "Deschedule x d c nodes s = Deschedule x (evicting_under c d) c' nodes s \<and>
   (ListPodsOnNodes x nodes (GetPodsAssignedToNodeFunc (handle d)) (podFilter d) = Inr pods \<longrightarrow>
      (\<not> list_ex total_limit_call (calls (Deschedule x d c nodes s)) \<longrightarrow>
         processed (calls (Deschedule x d c nodes s)) = map Name nodes) \<and>
      (\<not> list_ex limit_call (calls (Deschedule x d c nodes s)) \<longrightarrow>
         mset (checked (calls (Deschedule x d c nodes s))) =
           mset (concat (map (\<lambda>n. filter (\<lambda>p. NodeName p = Name n) pods) nodes))))"
proof (intro conjI impI)
  show "Deschedule x d c nodes s = Deschedule x (evicting_under c d) c' nodes s"
    by (simp add: Deschedule_evicting_under)
next
  assume l: "ListPodsOnNodes x nodes (GetPodsAssignedToNodeFunc (handle d)) (podFilter d) = Inr pods"
  obtain m s' tr where nl: "nodes_loop x d c (GroupByNamespace pods) (CreateNodeMap nodes) nodes
                  (GroupByNodeName pods) s = (m, s', tr)"
    by (metis prod_cases3)
  have r: "calls (Deschedule x d c nodes s) = tr"
    using l nl by (simp add: Deschedule_def)
  {
    assume "\<not> list_ex total_limit_call (calls (Deschedule x d c nodes s))"
    then show "processed (calls (Deschedule x d c nodes s)) = map Name nodes"
      using nodes_loop_all_processed [OF nl] r by simp
  }
  {
    assume "\<not> list_ex limit_call (calls (Deschedule x d c nodes s))"
    then have "mset (checked tr) =
        mset (concat (map (\<lambda>n. pods_of (GroupByNodeName pods) (Name n)) nodes))"
      using nodes_loop_all_checked [OF nl] r by simp
    then show "mset (checked (calls (Deschedule x d c nodes s))) =
           mset (concat (map (\<lambda>n. filter (\<lambda>p. NodeName p = Name n) pods) nodes))"
      using r by (simp add: pods_of_GroupByNodeName)
  }
qed

theorem Deschedule_ignores_ctx_witness:
  "Deschedule (test_externals [''p1'', ''p2''])
     (test_plugin [test_pod ''p1'' ''a'' 0, test_pod ''p2'' ''b'' 0] [])
     cancelled_ctx [test_node ''a'', test_node ''b''] 0 =
   Deschedule (test_externals [''p1'', ''p2''])
     (evicting_under cancelled_ctx (test_plugin [test_pod ''p1'' ''a'' 0, test_pod ''p2'' ''b'' 0] []))
     background [test_node ''a'', test_node ''b''] 0 \<and>
   ListPodsOnNodes (test_externals [''p1'', ''p2'']) [test_node ''a'', test_node ''b'']
     (GetPodsAssignedToNodeFunc (handle (test_plugin [test_pod ''p1'' ''a'' 0, test_pod ''p2'' ''b'' 0] [])))
     (podFilter (test_plugin [test_pod ''p1'' ''a'' 0, test_pod ''p2'' ''b'' 0] [])) =
     Inr [test_pod ''p1'' ''a'' 0, test_pod ''p2'' ''b'' 0] \<and>
   \<not> list_ex limit_call (calls (Deschedule (test_externals [''p1'', ''p2''])
     (test_plugin [test_pod ''p1'' ''a'' 0, test_pod ''p2'' ''b'' 0] [])
     cancelled_ctx [test_node ''a'', test_node ''b''] 0)) \<and>
   processed (calls (Deschedule (test_externals [''p1'', ''p2''])
     (test_plugin [test_pod ''p1'' ''a'' 0, test_pod ''p2'' ''b'' 0] [])
     cancelled_ctx [test_node ''a'', test_node ''b''] 0)) = [''a'', ''b''] \<and>
   mset (checked (calls (Deschedule (test_externals [''p1'', ''p2''])
     (test_plugin [test_pod ''p1'' ''a'' 0, test_pod ''p2'' ''b'' 0] [])
     cancelled_ctx [test_node ''a'', test_node ''b''] 0))) =
     {#test_pod ''p1'' ''a'' 0, test_pod ''p2'' ''b'' 0#}"
proof -
  let ?x = "test_externals [''p1'', ''p2'']"
  let ?pods = "[test_pod ''p1'' ''a'' 0, test_pod ''p2'' ''b'' 0]"
  let ?d = "test_plugin ?pods []"
  let ?ns = "[test_node ''a'', test_node ''b'']"
  have l: "ListPodsOnNodes ?x ?ns (GetPodsAssignedToNodeFunc (handle ?d)) (podFilter ?d) = Inr ?pods"
    by (simp add: test_defs)
  have c: "calls (Deschedule ?x ?d cancelled_ctx ?ns 0) =
     [ProcessingNode ''a'', CheckedAffinity (test_pod ''p1'' ''a'' 0),
      EvictCalled (test_pod ''p1'' ''a'' 0) None,
      ProcessingNode ''b'', CheckedAffinity (test_pod ''p2'' ''b'' 0),
      EvictCalled (test_pod ''p2'' ''b'' 0) None]"
    by (simp add: test_defs)
  have n: "\<not> list_ex limit_call (calls (Deschedule ?x ?d cancelled_ctx ?ns 0))"
    "\<not> list_ex total_limit_call (calls (Deschedule ?x ?d cancelled_ctx ?ns 0))"
    by (simp_all add: c)
  have nm: "map Name ?ns = [''a'', ''b'']"
    by (simp add: test_node_def)
  have f: "concat (map (\<lambda>n. filter (\<lambda>p. NodeName p = Name n) ?pods) ?ns) = ?pods"
    by (simp add: test_node_def test_pod_def)
  note t = Deschedule_ignores_ctx [of ?x ?d cancelled_ctx ?ns 0 background ?pods]
  have 1: "Deschedule ?x ?d cancelled_ctx ?ns 0 =
      Deschedule ?x (evicting_under cancelled_ctx ?d) background ?ns 0"
    using t by (rule conjunct1)
  have "processed (calls (Deschedule ?x ?d cancelled_ctx ?ns 0)) = map Name ?ns"
    using t l n(2) by blast
  then have 2: "processed (calls (Deschedule ?x ?d cancelled_ctx ?ns 0)) = [''a'', ''b'']"
    unfolding nm .
  have "mset (checked (calls (Deschedule ?x ?d cancelled_ctx ?ns 0))) =
      mset (concat (map (\<lambda>n. filter (\<lambda>p. NodeName p = Name n) ?pods) ?ns))"
    using t l n(1) by blast
  then have 3: "mset (checked (calls (Deschedule ?x ?d cancelled_ctx ?ns 0))) =
      {#test_pod ''p1'' ''a'' 0, test_pod ''p2'' ''b'' 0#}"
    unfolding f by simp
  show ?thesis using 1 l n(1) 2 3 by blast
qed

text \<open>
  C4 as stated fails: under a context that is cancelled from the start, with an evictor
  that does not look at it, the run processes both nodes and evicts on both.
\<close>

theorem cancelled_ctx_counterexample:
  "calls (Deschedule (test_externals [''p1'', ''p2''])
     (test_plugin [test_pod ''p1'' ''a'' 0, test_pod ''p2'' ''b'' 0] [])
     cancelled_ctx [test_node ''a'', test_node ''b''] 0) =
   [ProcessingNode ''a'', CheckedAffinity (test_pod ''p1'' ''a'' 0),
    EvictCalled (test_pod ''p1'' ''a'' 0) None,
    ProcessingNode ''b'', CheckedAffinity (test_pod ''p2'' ''b'' 0),
    EvictCalled (test_pod ''p2'' ''b'' 0) None]"
  by (simp add: test_defs)

section \<open>The order of a visit\<close>











section \<open>Other outcomes of an eviction\<close>

lemma pods_loop_head:
  "\<exists>f s' tr. pods_loop x d c nsm nm (q # qs) s = (f, s', CheckedAffinity q # tr)"
  by (cases rule: pods_loop_step_cases [where x = x and d = d and nsm = nsm and nm = nm and p = q and c = c and s = s])
     (auto simp: pods_loop_skip pods_loop_node_limit pods_loop_total_limit pods_loop_default
           split: prod.splits)

lemma pods_loop_after_other_outcome:
  "pods_loop x d c nsm nm ps s = (f, s', pre @ EvictCalled p err # post) \<Longrightarrow>
   err \<noteq> Some EvictionNodeLimitError \<Longrightarrow> err \<noteq> Some EvictionTotalLimitError \<Longrightarrow>
   \<exists>qs1 qs2 s0 s1.
     ps = qs1 @ p # qs2 \<and> checked pre = qs1 @ [p] \<and> processed pre = [] \<and>
     Evict (Evictor (handle d)) c p \<lparr>StrategyName = PluginName\<rparr> s0 = (err, s1) \<and>
     pods_loop x d c nsm nm qs2 s1 = (f, s', post)"
proof (induction ps arbitrary: s pre f s')
  case Nil
  then show ?case by simp
next
  case (Cons p0 ps)
  let ?E = "EvictCalled p err"
  show ?case
  proof (cases rule: pods_loop_step_cases [where x = x and d = d and nsm = nsm and nm = nm and p = p0 and c = c and s = s])
    case skip
    obtain f0 s0 tr0 where r: "pods_loop x d c nsm nm ps s = (f0, s0, tr0)"
      by (metis prod_cases3)
    with skip Cons.prems(1) have eq: "f = f0" "s' = s0" "CheckedAffinity p0 # tr0 = pre @ ?E # post"
      by (simp_all add: pods_loop_skip)
    then obtain pre' where pre': "pre = CheckedAffinity p0 # pre'" "tr0 = pre' @ ?E # post"
      by (auto simp: Cons_eq_append_conv)
    with r eq have "pods_loop x d c nsm nm ps s = (f, s', pre' @ ?E # post)" by simp
    from Cons.IH [OF this Cons.prems(2,3)]
    obtain qs1 qs2 t0 t1 where
      "ps = qs1 @ p # qs2" "checked pre' = qs1 @ [p]" "processed pre' = []"
      "Evict (Evictor (handle d)) c p \<lparr>StrategyName = PluginName\<rparr> t0 = (err, t1)"
      "pods_loop x d c nsm nm qs2 t1 = (f, s', post)"
      by blast
    then have "p0 # ps = (p0 # qs1) @ p # qs2 \<and> checked pre = (p0 # qs1) @ [p] \<and>
      processed pre = [] \<and>
      Evict (Evictor (handle d)) c p \<lparr>StrategyName = PluginName\<rparr> t0 = (err, t1) \<and>
      pods_loop x d c nsm nm qs2 t1 = (f, s', post)"
      using pre'(1) by simp
    then show ?thesis by blast
  next
    case (node_limit s1)
    with Cons.prems(1) have
      "[CheckedAffinity p0, EvictCalled p0 (Some EvictionNodeLimitError)] = pre @ ?E # post"
      by (simp add: pods_loop_node_limit)
    then show ?thesis using Cons.prems(2) by (auto simp: Cons_eq_append_conv)
  next
    case (total_limit s1)
    with Cons.prems(1) have
      "[CheckedAffinity p0, EvictCalled p0 (Some EvictionTotalLimitError)] = pre @ ?E # post"
      by (simp add: pods_loop_total_limit)
    then show ?thesis using Cons.prems(3) by (auto simp: Cons_eq_append_conv)
  next
    case (default err0 s1)
    obtain f0 s0 tr0 where r: "pods_loop x d c nsm nm ps s1 = (f0, s0, tr0)"
      by (metis prod_cases3)
    with default Cons.prems(1) have eq: "f = f0" "s' = s0"
      "CheckedAffinity p0 # EvictCalled p0 err0 # tr0 = pre @ ?E # post"
      by (simp_all add: pods_loop_default)
    then consider
        (here) "pre = [CheckedAffinity p0]" "p = p0" "err = err0" "post = tr0"
      | (later) pre' where "pre = CheckedAffinity p0 # EvictCalled p0 err0 # pre'"
          "tr0 = pre' @ ?E # post"
      by (auto simp: Cons_eq_append_conv)
    then show ?thesis
    proof cases
      case here
      then have "p0 # ps = [] @ p # ps \<and> checked pre = [] @ [p] \<and> processed pre = [] \<and>
        Evict (Evictor (handle d)) c p \<lparr>StrategyName = PluginName\<rparr> s = (err, s1) \<and>
        pods_loop x d c nsm nm ps s1 = (f, s', post)"
        using default(2) r eq(1,2) by simp
      then show ?thesis by blast
    next
      case later
      with r eq have "pods_loop x d c nsm nm ps s1 = (f, s', pre' @ ?E # post)" by simp
      from Cons.IH [OF this Cons.prems(2,3)]
      obtain qs1 qs2 t0 t1 where
        "ps = qs1 @ p # qs2" "checked pre' = qs1 @ [p]" "processed pre' = []"
        "Evict (Evictor (handle d)) c p \<lparr>StrategyName = PluginName\<rparr> t0 = (err, t1)"
        "pods_loop x d c nsm nm qs2 t1 = (f, s', post)"
        by blast
      then have "p0 # ps = (p0 # qs1) @ p # qs2 \<and> checked pre = (p0 # qs1) @ [p] \<and>
        processed pre = [] \<and>
        Evict (Evictor (handle d)) c p \<lparr>StrategyName = PluginName\<rparr> t0 = (err, t1) \<and>
        pods_loop x d c nsm nm qs2 t1 = (f, s', post)"
        using later(1) by simp
      then show ?thesis by blast
    qed
  qed
qed

lemma nodes_loop_after_other_outcome:
  assumes "err \<noteq> Some EvictionNodeLimitError" and "err \<noteq> Some EvictionTotalLimitError"
  shows "(\<forall>k. mset (pods_of g k) = M k) \<Longrightarrow>
   nodes_loop x d c nsm nm ns g s = (m, s', pre @ EvictCalled p err # post) \<Longrightarrow>
   \<exists>ns1 n ns2 qs1 qs2 pre0 pre1 s0 s1 g1.
     ns = ns1 @ n # ns2 \<and> mset (qs1 @ p # qs2) = M (Name n) \<and>
     pre = pre0 @ ProcessingNode (Name n) # pre1 \<and> processed pre1 = [] \<and>
     checked pre1 = qs1 @ [p] \<and>
     Evict (Evictor (handle d)) c p \<lparr>StrategyName = PluginName\<rparr> s0 = (err, s1) \<and>
     (case pods_loop x d c nsm nm qs2 s1 of
        (f, s2, tr) \<Rightarrow>
          post = (if f = Return then tr
                  else tr @ snd (snd (nodes_loop x d c nsm nm ns2 g1 s2))))"
proof (induction ns arbitrary: g s pre)
  case Nil
  then show ?case by simp
next
  case (Cons n ns)
  let ?E = "EvictCalled p err"
  let ?g = "node_sorted x g n"
  obtain f s1 tr1 where pl: "pods_loop x d c nsm nm (pods_of ?g (Name n)) s = (f, s1, tr1)"
    by (metis prod_cases3)
  have inv: "\<forall>k. mset (pods_of ?g k) = M k"
    using Cons.prems(1) by (simp add: mset_pods_of_sort_in_place)
  have here: "\<exists>qs1 qs2 s0 t1.
      mset (qs1 @ p # qs2) = M (Name n) \<and> checked pre' = qs1 @ [p] \<and> processed pre' = [] \<and>
      Evict (Evictor (handle d)) c p \<lparr>StrategyName = PluginName\<rparr> s0 = (err, t1) \<and>
      pods_loop x d c nsm nm qs2 t1 = (f, s1, post')"
    if "tr1 = pre' @ ?E # post'" for pre' post'
  proof -
    from pl that have "pods_loop x d c nsm nm (pods_of ?g (Name n)) s = (f, s1, pre' @ ?E # post')"
      by simp
    from pods_loop_after_other_outcome [OF this assms]
    obtain qs1 qs2 s0 t1 where q:
      "pods_of ?g (Name n) = qs1 @ p # qs2" "checked pre' = qs1 @ [p]" "processed pre' = []"
      "Evict (Evictor (handle d)) c p \<lparr>StrategyName = PluginName\<rparr> s0 = (err, t1)"
      "pods_loop x d c nsm nm qs2 t1 = (f, s1, post')"
      by (elim exE conjE) (rule that, assumption+)
    from inv have "mset (pods_of ?g (Name n)) = M (Name n)" by (rule spec)
    then have 1: "mset (qs1 @ p # qs2) = M (Name n)" unfolding q(1) .
    have "mset (qs1 @ p # qs2) = M (Name n) \<and> checked pre' = qs1 @ [p] \<and>
      processed pre' = [] \<and>
      Evict (Evictor (handle d)) c p \<lparr>StrategyName = PluginName\<rparr> s0 = (err, t1) \<and>
      pods_loop x d c nsm nm qs2 t1 = (f, s1, post')"
      using 1 q(2-5) by (intro conjI)
    then show ?thesis by (intro exI)
  qed
  show ?case
  proof (cases "f = Return")
    case True
    then have m: "s' = s1" "ProcessingNode (Name n) # tr1 = pre @ ?E # post"
      using Cons.prems(2) pl by (simp_all add: nodes_loop_return)
    then obtain pre' where pre': "pre = ProcessingNode (Name n) # pre'" "tr1 = pre' @ ?E # post"
      by (auto simp: Cons_eq_append_conv)
    from here [OF pre'(2)]
    obtain qs1 qs2 s0 t1 where q:
      "mset (qs1 @ p # qs2) = M (Name n)" "checked pre' = qs1 @ [p]" "processed pre' = []"
      "Evict (Evictor (handle d)) c p \<lparr>StrategyName = PluginName\<rparr> s0 = (err, t1)"
      "pods_loop x d c nsm nm qs2 t1 = (f, s1, post)"
      by (elim exE conjE) (rule that, assumption+)
    have "n # ns = [] @ n # ns \<and> mset (qs1 @ p # qs2) = M (Name n) \<and>
      pre = [] @ ProcessingNode (Name n) # pre' \<and> processed pre' = [] \<and>
      checked pre' = qs1 @ [p] \<and>
      Evict (Evictor (handle d)) c p \<lparr>StrategyName = PluginName\<rparr> s0 = (err, t1) \<and>
      (case pods_loop x d c nsm nm qs2 t1 of
        (f, s2, tr) \<Rightarrow>
          post = (if f = Return then tr
                  else tr @ snd (snd (nodes_loop x d c nsm nm ns g s2))))"
      using q pre'(1) True by simp
    then show ?thesis by (intro exI)
  next
    case False
    obtain g2 s2 tr2 where nl: "nodes_loop x d c nsm nm ns ?g s1 = (g2, s2, tr2)"
      by (metis prod_cases3)
    have eq: "m = g2" "s' = s2" "ProcessingNode (Name n) # tr1 @ tr2 = pre @ ?E # post"
      using Cons.prems(2) nodes_loop_next [OF pl False, of ns] nl by simp_all
    then obtain pre0 where pre0: "pre = ProcessingNode (Name n) # pre0"
      "tr1 @ tr2 = pre0 @ ?E # post"
      by (auto simp: Cons_eq_append_conv)
    then consider
        (first) us where "tr1 = pre0 @ ?E # us" "post = us @ tr2"
      | (later) us where "tr2 = us @ ?E # post" "pre0 = tr1 @ us"
      by (auto simp: append_eq_append_conv2 append_eq_Cons_conv Cons_eq_append_conv)
    then show ?thesis
    proof cases
      case first
      from here [OF first(1)]
      obtain qs1 qs2 s0 t1 where q:
        "mset (qs1 @ p # qs2) = M (Name n)" "checked pre0 = qs1 @ [p]" "processed pre0 = []"
        "Evict (Evictor (handle d)) c p \<lparr>StrategyName = PluginName\<rparr> s0 = (err, t1)"
        "pods_loop x d c nsm nm qs2 t1 = (f, s1, us)"
        by (elim exE conjE) (rule that, assumption+)
      have "n # ns = [] @ n # ns \<and> mset (qs1 @ p # qs2) = M (Name n) \<and>
        pre = [] @ ProcessingNode (Name n) # pre0 \<and> processed pre0 = [] \<and>
        checked pre0 = qs1 @ [p] \<and>
        Evict (Evictor (handle d)) c p \<lparr>StrategyName = PluginName\<rparr> s0 = (err, t1) \<and>
        (case pods_loop x d c nsm nm qs2 t1 of
          (f, s2, tr) \<Rightarrow>
            post = (if f = Return then tr
                    else tr @ snd (snd (nodes_loop x d c nsm nm ns ?g s2))))"
        using q pre0(1) False first(2) nl by simp
      then show ?thesis by (intro exI)
    next
      case later
      with nl eq have "nodes_loop x d c nsm nm ns ?g s1 = (m, s', us @ ?E # post)" by simp
      from Cons.IH [OF inv this]
      obtain ns1 n' ns2 qs1 qs2 pre0' pre1 s0 t1 g1 where q:
        "ns = ns1 @ n' # ns2" "mset (qs1 @ p # qs2) = M (Name n')"
        "us = pre0' @ ProcessingNode (Name n') # pre1" "processed pre1 = []"
        "checked pre1 = qs1 @ [p]"
        "Evict (Evictor (handle d)) c p \<lparr>StrategyName = PluginName\<rparr> s0 = (err, t1)"
        "(case pods_loop x d c nsm nm qs2 t1 of
          (f, s2, tr) \<Rightarrow>
            post = (if f = Return then tr
                    else tr @ snd (snd (nodes_loop x d c nsm nm ns2 g1 s2))))"
        by (elim exE conjE) (rule that, assumption+)
      have "n # ns = (n # ns1) @ n' # ns2 \<and> mset (qs1 @ p # qs2) = M (Name n') \<and>
        pre = (ProcessingNode (Name n) # tr1 @ pre0') @ ProcessingNode (Name n') # pre1 \<and>
        processed pre1 = [] \<and> checked pre1 = qs1 @ [p] \<and>
        Evict (Evictor (handle d)) c p \<lparr>StrategyName = PluginName\<rparr> s0 = (err, t1) \<and>
        (case pods_loop x d c nsm nm qs2 t1 of
          (f, s2, tr) \<Rightarrow>
            post = (if f = Return then tr
                    else tr @ snd (snd (nodes_loop x d c nsm nm ns2 g1 s2))))"
        using q pre0(1) later(2) by simp
      then show ?thesis by (intro exI)
    qed
  qed
qed

text \<open>
  C9: in every run, a call of \<open>Evict\<close> that returns anything but
  \<open>EvictionNodeLimitError\<close> or \<open>EvictionTotalLimitError\<close> (\<open>nil\<close>, a per-namespace
  limit error, any other error) is followed by the rest of the same node. The pod belongs
  to a node \<open>n\<close> of the node list whose candidate pods are, in the order of the visit,
  \<open>qs1\<close>, the pod, \<open>qs2\<close>; the visit had checked \<open>qs1\<close> and the pod; and what follows in
  the run is exactly the inner loop over the remaining pods \<open>qs2\<close> from the state the call
  left, starting with the check of the next pod if there is one, and then, unless that loop
  returns, the outer loop over the nodes after \<open>n\<close>.
\<close>

theorem other_outcomes_continue:
  assumes "ListPodsOnNodes x nodes (GetPodsAssignedToNodeFunc (handle d)) (podFilter d) = Inr pods"
    and "calls (Deschedule x d c nodes s) = pre @ EvictCalled p err # post"
    and "err \<noteq> Some EvictionNodeLimitError" and "err \<noteq> Some EvictionTotalLimitError"
  shows "\<exists>ns1 n ns2 qs1 qs2 pre0 pre1 s0 s1 g1.
     nodes = ns1 @ n # ns2 \<and> Name n = NodeName p \<and>
     mset (qs1 @ p # qs2) = mset (filter (\<lambda>q. NodeName q = Name n) pods) \<and>
     pre = pre0 @ ProcessingNode (Name n) # pre1 \<and> processed pre1 = [] \<and>
     checked pre1 = qs1 @ [p] \<and>
     Evict (Evictor (handle d)) c p \<lparr>StrategyName = PluginName\<rparr> s0 = (err, s1) \<and>
     (case pods_loop x d c (GroupByNamespace pods) (CreateNodeMap nodes) qs2 s1 of
        (f, s2, tr) \<Rightarrow>
          post = (if f = Return then tr
                  else tr @ snd (snd (nodes_loop x d c (GroupByNamespace pods)
                                        (CreateNodeMap nodes) ns2 g1 s2)))) \<and>
     (\<forall>q qs. qs2 = q # qs \<longrightarrow> (\<exists>post'. post = CheckedAffinity q # post'))"
proof -
  let ?nsm = "GroupByNamespace pods" and ?nm = "CreateNodeMap nodes"
  obtain m s' tr where nl:
    "nodes_loop x d c ?nsm ?nm nodes (GroupByNodeName pods) s = (m, s', tr)"
    by (metis prod_cases3)
  have "calls (Deschedule x d c nodes s) = tr"
    using assms(1) nl by (simp add: Deschedule_def)
  with assms(2) nl have run:
    "nodes_loop x d c ?nsm ?nm nodes (GroupByNodeName pods) s =
       (m, s', pre @ EvictCalled p err # post)"
    by simp
  have inv: "\<forall>k. mset (pods_of (GroupByNodeName pods) k) =
      mset (filter (\<lambda>q. NodeName q = k) pods)"
    by (simp add: pods_of_GroupByNodeName)
  from nodes_loop_after_other_outcome [OF assms(3,4) inv run]
  obtain ns1 n ns2 qs1 qs2 pre0 pre1 s0 s1 g1 where q:
    "nodes = ns1 @ n # ns2"
    "mset (qs1 @ p # qs2) = mset (filter (\<lambda>q. NodeName q = Name n) pods)"
    "pre = pre0 @ ProcessingNode (Name n) # pre1" "processed pre1 = []"
    "checked pre1 = qs1 @ [p]"
    "Evict (Evictor (handle d)) c p \<lparr>StrategyName = PluginName\<rparr> s0 = (err, s1)"
    "(case pods_loop x d c ?nsm ?nm qs2 s1 of
        (f, s2, tr) \<Rightarrow>
          post = (if f = Return then tr
                  else tr @ snd (snd (nodes_loop x d c ?nsm ?nm ns2 g1 s2))))"
    by (elim exE conjE) (rule that, assumption+)
  have "p \<in># mset (qs1 @ p # qs2)" by simp
  then have "p \<in> set (filter (\<lambda>q. NodeName q = Name n) pods)"
    unfolding q(2) by simp
  then have nn: "Name n = NodeName p" by simp
  have nxt: "\<exists>post'. post = CheckedAffinity q' # post'" if "qs2 = q' # qs" for q' qs
  proof -
    obtain f s2 tr where "pods_loop x d c ?nsm ?nm (q' # qs) s1 = (f, s2, CheckedAffinity q' # tr)"
      using pods_loop_head [of x d c ?nsm ?nm q' qs s1] by blast
    then show ?thesis using q(7) that by (cases "f = Return") simp_all
  qed
  have "nodes = ns1 @ n # ns2 \<and> Name n = NodeName p \<and>
     mset (qs1 @ p # qs2) = mset (filter (\<lambda>q. NodeName q = Name n) pods) \<and>
     pre = pre0 @ ProcessingNode (Name n) # pre1 \<and> processed pre1 = [] \<and>
     checked pre1 = qs1 @ [p] \<and>
     Evict (Evictor (handle d)) c p \<lparr>StrategyName = PluginName\<rparr> s0 = (err, s1) \<and>
     (case pods_loop x d c ?nsm ?nm qs2 s1 of
        (f, s2, tr) \<Rightarrow>
          post = (if f = Return then tr
                  else tr @ snd (snd (nodes_loop x d c ?nsm ?nm ns2 g1 s2)))) \<and>
     (\<forall>q qs. qs2 = q # qs \<longrightarrow> (\<exists>post'. post = CheckedAffinity q # post'))"
    using q nn nxt by blast
  then show ?thesis by (intro exI)
qed

theorem other_outcomes_continue_witness:
  "ListPodsOnNodes (test_externals [''p1'', ''p2'', ''p3'']) [test_node ''a'', test_node ''b'']
     (GetPodsAssignedToNodeFunc
        (handle (test_plugin shared_node_pods [(''p1'', EvictionNamespaceLimitError)])))
     (podFilter (test_plugin shared_node_pods [(''p1'', EvictionNamespaceLimitError)])) =
     Inr shared_node_pods \<and>
   calls (Deschedule (test_externals [''p1'', ''p2'', ''p3''])
      (test_plugin shared_node_pods [(''p1'', EvictionNamespaceLimitError)])
      background [test_node ''a'', test_node ''b''] 0) =
     [ProcessingNode ''a'', CheckedAffinity (test_pod ''p1'' ''a'' 0)] @
     EvictCalled (test_pod ''p1'' ''a'' 0) (Some EvictionNamespaceLimitError) #
     [CheckedAffinity (test_pod ''p2'' ''a'' 10), EvictCalled (test_pod ''p2'' ''a'' 10) None,
      ProcessingNode ''b'', CheckedAffinity (test_pod ''p3'' ''b'' 0),
      EvictCalled (test_pod ''p3'' ''b'' 0) None] \<and>
   (\<exists>ns1 n ns2 qs1 qs2 pre0 pre1 s0 s1 g1.
     [test_node ''a'', test_node ''b''] = ns1 @ n # ns2 \<and>
     Name n = NodeName (test_pod ''p1'' ''a'' 0) \<and>
     mset (qs1 @ test_pod ''p1'' ''a'' 0 # qs2) =
       mset (filter (\<lambda>q. NodeName q = Name n) shared_node_pods) \<and>
     [ProcessingNode ''a'', CheckedAffinity (test_pod ''p1'' ''a'' 0)] =
       pre0 @ ProcessingNode (Name n) # pre1 \<and>
     processed pre1 = [] \<and>
     checked pre1 = qs1 @ [test_pod ''p1'' ''a'' 0] \<and>
     Evict (Evictor (handle (test_plugin shared_node_pods [(''p1'', EvictionNamespaceLimitError)])))
       background (test_pod ''p1'' ''a'' 0) \<lparr>StrategyName = PluginName\<rparr> s0 =
       (Some EvictionNamespaceLimitError, s1) \<and>
     (case pods_loop (test_externals [''p1'', ''p2'', ''p3''])
             (test_plugin shared_node_pods [(''p1'', EvictionNamespaceLimitError)]) background
             (GroupByNamespace shared_node_pods)
             (CreateNodeMap [test_node ''a'', test_node ''b'']) qs2 s1 of
        (f, s2, tr) \<Rightarrow>
          [CheckedAffinity (test_pod ''p2'' ''a'' 10), EvictCalled (test_pod ''p2'' ''a'' 10) None,
           ProcessingNode ''b'', CheckedAffinity (test_pod ''p3'' ''b'' 0),
           EvictCalled (test_pod ''p3'' ''b'' 0) None] =
          (if f = Return then tr
           else tr @ snd (snd (nodes_loop (test_externals [''p1'', ''p2'', ''p3''])
                  (test_plugin shared_node_pods [(''p1'', EvictionNamespaceLimitError)])
                  background (GroupByNamespace shared_node_pods)
                  (CreateNodeMap [test_node ''a'', test_node ''b'']) ns2 g1 s2)))) \<and>
     (\<forall>q qs. qs2 = q # qs \<longrightarrow>
        (\<exists>post'.
           [CheckedAffinity (test_pod ''p2'' ''a'' 10), EvictCalled (test_pod ''p2'' ''a'' 10) None,
            ProcessingNode ''b'', CheckedAffinity (test_pod ''p3'' ''b'' 0),
            EvictCalled (test_pod ''p3'' ''b'' 0) None] = CheckedAffinity q # post')))"
proof -
  let ?x = "test_externals [''p1'', ''p2'', ''p3'']"
  let ?d = "test_plugin shared_node_pods [(''p1'', EvictionNamespaceLimitError)]"
  let ?ns = "[test_node ''a'', test_node ''b'']"
  have l: "ListPodsOnNodes ?x ?ns (GetPodsAssignedToNodeFunc (handle ?d)) (podFilter ?d) =
      Inr shared_node_pods"
    by (simp add: shared_node_pods_def test_defs)
  have c: "calls (Deschedule ?x ?d background ?ns 0) =
     [ProcessingNode ''a'', CheckedAffinity (test_pod ''p1'' ''a'' 0)] @
     EvictCalled (test_pod ''p1'' ''a'' 0) (Some EvictionNamespaceLimitError) #
     [CheckedAffinity (test_pod ''p2'' ''a'' 10), EvictCalled (test_pod ''p2'' ''a'' 10) None,
      ProcessingNode ''b'', CheckedAffinity (test_pod ''p3'' ''b'' 0),
      EvictCalled (test_pod ''p3'' ''b'' 0) None]"
    by (simp add: shared_node_pods_def test_defs)
  have e1: "Some EvictionNamespaceLimitError \<noteq> Some EvictionNodeLimitError"
    and e2: "Some EvictionNamespaceLimitError \<noteq> Some EvictionTotalLimitError"
    by simp_all
  show ?thesis
    by (rule conjI [OF l conjI [OF c other_outcomes_continue [OF l c e1 e2]]])
qed

end
